theory Spec2Isabelle
  imports Main "HOL-Library.List_Lexorder" "HOL-Library.Code_Target_Nat"
begin

section \<open>Python values used by the bot\<close>

subsection \<open>Exceptions\<close>

datatype error =
    IntegrityError      \<comment> \<open>sqlite3: UNIQUE or CHECK constraint failed\<close>
  | OperationalError    \<comment> \<open>sqlite3: integer overflow in SUM\<close>
  | OverflowError       \<comment> \<open>int too large for SQLite INTEGER; date value out of range\<close>
  | ValueError          \<comment> \<open>\<open>int()\<close> on a non-decimal text; year out of range\<close>
  | KeyError            \<comment> \<open>missing key of \<open>context.user_data\<close>\<close>
  | TypeError           \<comment> \<open>subscripting \<open>None\<close>\<close>
  | BcryptError         \<comment> \<open>any exception raised inside the bcrypt library\<close>

subsection \<open>Strings\<close>

text \<open>
  A Python \<open>str\<close> is a sequence of Unicode code points, so \<open>len\<close> counts code points.
  It is modelled as a list of code-point numbers.  The order on lists is the
  lexicographic one, which is how SQLite compares \<open>TEXT\<close> values under its default
  \<open>BINARY\<close> collation (UTF-8 byte order is code-point order).
\<close>

type_synonym pystr = "nat list"

abbreviation ascii :: "string \<Rightarrow> pystr" where
  "ascii s \<equiv> map of_char s"

text \<open>\<open>str.isspace\<close> of a single character: the white-space table of CPython.\<close>

definition isspace :: "nat \<Rightarrow> bool" where
  "isspace c \<longleftrightarrow>
     (0x9 \<le> c \<and> c \<le> 0xD) \<or> (0x1C \<le> c \<and> c \<le> 0x20) \<or> c = 0x85 \<or> c = 0xA0 \<or>
     c = 0x1680 \<or> (0x2000 \<le> c \<and> c \<le> 0x200A) \<or> c = 0x2028 \<or> c = 0x2029 \<or>
     c = 0x202F \<or> c = 0x205F \<or> c = 0x3000"

text \<open>\<open>s.strip()\<close>: drop leading and trailing white space.\<close>

definition strip :: "pystr \<Rightarrow> pystr" where
  "strip s = rev (dropWhile isspace (rev (dropWhile isspace s)))"

text \<open>\<open>s.replace(c, "")\<close> for a one-character \<open>c\<close>: every occurrence is deleted.\<close>

definition replace_empty :: "nat \<Rightarrow> pystr \<Rightarrow> pystr" where
  "replace_empty c s = filter (\<lambda>x. x \<noteq> c) s"

text \<open>
  \<open>str.isdecimal\<close> and \<open>str.isdigit\<close> follow the Unicode character database (version
  14.0, as shipped with CPython 3.11).  Decimal digits (category Nd) come in runs
  \<open>(first, length)\<close> whose members count 0 to 9 in order; \<open>isdigit\<close> accepts in
  addition the characters of numeric type Digit: superscripts, subscripts, circled
  digits and the like.
\<close>

definition decimal_ranges :: "(nat \<times> nat) list" where
  "decimal_ranges =
    [(0x30, 10), (0x660, 10), (0x6F0, 10), (0x7C0, 10), (0x966, 10), (0x9E6, 10),
     (0xA66, 10), (0xAE6, 10), (0xB66, 10), (0xBE6, 10), (0xC66, 10), (0xCE6, 10),
     (0xD66, 10), (0xDE6, 10), (0xE50, 10), (0xED0, 10), (0xF20, 10), (0x1040, 10),
     (0x1090, 10), (0x17E0, 10), (0x1810, 10), (0x1946, 10), (0x19D0, 10), (0x1A80, 10),
     (0x1A90, 10), (0x1B50, 10), (0x1BB0, 10), (0x1C40, 10), (0x1C50, 10), (0xA620, 10),
     (0xA8D0, 10), (0xA900, 10), (0xA9D0, 10), (0xA9F0, 10), (0xAA50, 10), (0xABF0, 10),
     (0xFF10, 10), (0x104A0, 10), (0x10D30, 10), (0x11066, 10), (0x110F0, 10),
     (0x11136, 10), (0x111D0, 10), (0x112F0, 10), (0x11450, 10), (0x114D0, 10),
     (0x11650, 10), (0x116C0, 10), (0x11730, 10), (0x118E0, 10), (0x11950, 10),
     (0x11C50, 10), (0x11D50, 10), (0x11DA0, 10), (0x16A60, 10), (0x16AC0, 10),
     (0x16B50, 10), (0x1D7CE, 50), (0x1E140, 10), (0x1E2F0, 10), (0x1E950, 10),
     (0x1FBF0, 10)]"

definition other_digit_ranges :: "(nat \<times> nat) list" where
  "other_digit_ranges =
    [(0xB2, 2), (0xB9, 1), (0x1369, 9), (0x19DA, 1), (0x2070, 1), (0x2074, 6),
     (0x2080, 10), (0x2460, 9), (0x2474, 9), (0x2488, 9), (0x24EA, 1), (0x24F5, 9),
     (0x24FF, 1), (0x2776, 9), (0x2780, 9), (0x278A, 9), (0x10A40, 4), (0x10E60, 9),
     (0x11052, 9), (0x1F100, 11)]"

definition in_range :: "nat \<Rightarrow> nat \<times> nat \<Rightarrow> bool" where
  "in_range c r \<longleftrightarrow> fst r \<le> c \<and> c < fst r + snd r"

definition isdecimal_char :: "nat \<Rightarrow> bool" where
  "isdecimal_char c \<longleftrightarrow> list_ex (in_range c) decimal_ranges"

definition isdigit_char :: "nat \<Rightarrow> bool" where
  "isdigit_char c \<longleftrightarrow> isdecimal_char c \<or> list_ex (in_range c) other_digit_ranges"

text \<open>\<open>s.isdigit()\<close>: at least one character, and all of them digits.\<close>

definition isdigit :: "pystr \<Rightarrow> bool" where
  "isdigit s \<longleftrightarrow> s \<noteq> [] \<and> list_all isdigit_char s"

definition isdecimal :: "pystr \<Rightarrow> bool" where
  "isdecimal s \<longleftrightarrow> s \<noteq> [] \<and> list_all isdecimal_char s"

text \<open>The value 0 to 9 of a decimal digit character.\<close>

definition decimal_value :: "nat \<Rightarrow> nat" where
  "decimal_value c =
     (case find (in_range c) decimal_ranges of
        None \<Rightarrow> 0
      | Some r \<Rightarrow> (c - fst r) mod 10)"

text \<open>
  \<open>int(s)\<close> for a text that passed \<open>isdigit\<close>, the only way the bot calls it: every
  character must have a decimal value, otherwise \<open>ValueError\<close> is raised (the
  superscript two is a digit without one).  The conversion limit of 4300 digits is
  beyond the 4096 characters of a Telegram message and is left out.
\<close>

definition int_of_digits :: "pystr \<Rightarrow> error + int" where
  "int_of_digits s =
     (if isdecimal s then Inr (foldl (\<lambda>acc c. 10 * acc + int (decimal_value c)) 0 s)
      else Inl ValueError)"

subsection \<open>Currency format\<close>

text \<open>\<open>str(n)\<close> for a natural number: its decimal digits.\<close>

fun dec_digits :: "nat \<Rightarrow> pystr" where
  "dec_digits n = (if n < 10 then [48 + n] else dec_digits (n div 10) @ [48 + n mod 10])"

declare dec_digits.simps [simp del]

text \<open>
  The format specification \<open>","\<close>: a comma after every third digit, counted from
  the right.  \<open>group3\<close> works on the reversed digit string.
\<close>

fun group3 :: "pystr \<Rightarrow> pystr" where
  "group3 (a # b # c # d # r) = a # b # c # 44 # group3 (d # r)"
| "group3 xs = xs"

definition format_comma :: "int \<Rightarrow> pystr" where
  "format_comma n =
     (if n < 0 then ascii ''-'' else []) @ rev (group3 (rev (dec_digits (nat \<bar>n\<bar>))))"

text \<open>\<open>s.replace(",", ".")\<close>: one character for another.\<close>

definition replace_char :: "nat \<Rightarrow> nat \<Rightarrow> pystr \<Rightarrow> pystr" where
  "replace_char old new s = map (\<lambda>x. if x = old then new else x) s"

definition rupiah :: "int \<Rightarrow> pystr" where
  "rupiah n = ascii ''Rp.'' @ replace_char 44 46 (format_comma n)"

subsection \<open>Date and time in the fixed +08:00 offset\<close>

text \<open>
  Every \<open>datetime\<close> of the program is built by \<open>datetime.now(WITA)\<close> or derived from
  one, so the \<open>tzinfo\<close> field is always the constant offset +08:00 and is not stored.
\<close>

record datetime =
  year :: nat
  month :: nat
  day :: nat
  hour :: nat
  minute :: nat
  second :: nat
  microsecond :: nat

text \<open>\<open>"%0kd" % n\<close> for \<open>n < 10 ^ k\<close>: \<open>k\<close> decimal digits, zero padded.\<close>

fun zpad :: "nat \<Rightarrow> nat \<Rightarrow> pystr" where
  "zpad 0 n = []"
| "zpad (Suc k) n = zpad k (n div 10) @ [48 + n mod 10]"

text \<open>
  \<open>datetime.isoformat()\<close>: \<open>YYYY-MM-DDTHH:MM:SS[.ffffff]+08:00\<close>; the fraction is left
  out when the microsecond field is zero.
\<close>

definition isoformat :: "datetime \<Rightarrow> pystr" where
  "isoformat d =
     zpad 4 (year d) @ ascii ''-'' @ zpad 2 (month d) @ ascii ''-'' @ zpad 2 (day d) @
     ascii ''T'' @ zpad 2 (hour d) @ ascii '':'' @ zpad 2 (minute d) @ ascii '':'' @
     zpad 2 (second d) @
     (if microsecond d = 0 then [] else ascii ''.'' @ zpad 6 (microsecond d)) @
     ascii ''+08:00''"

text \<open>The proleptic Gregorian calendar of the \<open>datetime\<close> module.\<close>

definition is_leap :: "nat \<Rightarrow> bool" where
  "is_leap y \<longleftrightarrow> y mod 4 = 0 \<and> (y mod 100 \<noteq> 0 \<or> y mod 400 = 0)"

definition days_in_month :: "nat \<Rightarrow> nat \<Rightarrow> nat" where
  "days_in_month y m =
     (if m = 2 then (if is_leap y then 29 else 28)
      else if m = 4 \<or> m = 6 \<or> m = 9 \<or> m = 11 then 30 else 31)"

text \<open>The values a \<open>datetime\<close> object can hold: \<open>MINYEAR = 1\<close>, \<open>MAXYEAR = 9999\<close>.\<close>

definition valid_datetime :: "datetime \<Rightarrow> bool" where
  "valid_datetime d \<longleftrightarrow>
     1 \<le> year d \<and> year d \<le> 9999 \<and> 1 \<le> month d \<and> month d \<le> 12 \<and>
     1 \<le> day d \<and> day d \<le> days_in_month (year d) (month d) \<and>
     hour d < 24 \<and> minute d < 60 \<and> second d < 60 \<and> microsecond d < 1000000"

definition days_before_year :: "nat \<Rightarrow> nat" where
  "days_before_year y = (y - 1) * 365 + (y - 1) div 4 - (y - 1) div 100 + (y - 1) div 400"

definition days_before_month :: "nat \<Rightarrow> nat \<Rightarrow> nat" where
  "days_before_month y m = sum_list (map (days_in_month y) [1..<m])"

text \<open>\<open>toordinal()\<close>: the day number, 1 for 1 January of year 1.\<close>

definition toordinal :: "datetime \<Rightarrow> nat" where
  "toordinal d = days_before_year (year d) + days_before_month (year d) (month d) + day d"

text \<open>\<open>weekday()\<close>: Monday is 0.\<close>

definition weekday :: "datetime \<Rightarrow> nat" where
  "weekday d = (toordinal d + 6) mod 7"

text \<open>
  Adding and subtracting whole days.  Python goes through the day number
  (\<open>fromordinal (toordinal d + n)\<close>); the model steps through the calendar one day at
  a time, and \<open>toordinal\<close> of a step differs by one (lemmas \<open>toordinal_next_day\<close> and
  \<open>toordinal_prev_day\<close> below).  A result after year 9999 or before year 1 raises
  \<open>OverflowError\<close>.
\<close>

definition next_day :: "datetime \<Rightarrow> datetime" where
  "next_day d =
     (if day d < days_in_month (year d) (month d) then d\<lparr>day := day d + 1\<rparr>
      else if month d < 12 then d\<lparr>month := month d + 1, day := 1\<rparr>
      else d\<lparr>year := year d + 1, month := 1, day := 1\<rparr>)"

definition prev_day :: "datetime \<Rightarrow> datetime" where
  "prev_day d =
     (if 1 < day d then d\<lparr>day := day d - 1\<rparr>
      else if 1 < month d then
        d\<lparr>month := month d - 1, day := days_in_month (year d) (month d - 1)\<rparr>
      else d\<lparr>year := year d - 1, month := 12, day := 31\<rparr>)"

definition plus_days :: "datetime \<Rightarrow> nat \<Rightarrow> error + datetime" where
  "plus_days d n =
     (let r = (next_day ^^ n) d in if year r \<le> 9999 then Inr r else Inl OverflowError)"

definition minus_days :: "datetime \<Rightarrow> nat \<Rightarrow> error + datetime" where
  "minus_days d n =
     (if toordinal d \<le> n then Inl OverflowError else Inr ((prev_day ^^ n) d))"

text \<open>\<open>replace(hour=0, minute=0, second=0, microsecond=0)\<close>.\<close>

definition midnight :: "datetime \<Rightarrow> datetime" where
  "midnight d = d\<lparr>hour := 0, minute := 0, second := 0, microsecond := 0\<rparr>"

text \<open>
  The three report ranges.  The source reads the clock with \<open>datetime.now(WITA)\<close>;
  the model takes that reading as the argument \<open>now\<close>.
\<close>

definition today_range :: "datetime \<Rightarrow> error + pystr \<times> pystr" where
  "today_range now =
     (let start = midnight now in
      case plus_days start 1 of
        Inl e \<Rightarrow> Inl e
      | Inr end \<Rightarrow> Inr (isoformat start, isoformat end))"

definition week_range_monday :: "datetime \<Rightarrow> error + pystr \<times> pystr" where
  "week_range_monday now =
     (let start = midnight now in
      case minus_days start (weekday start) of
        Inl e \<Rightarrow> Inl e
      | Inr start' \<Rightarrow>
          (case plus_days start' 7 of
             Inl e \<Rightarrow> Inl e
           | Inr end \<Rightarrow> Inr (isoformat start', isoformat end)))"

text \<open>\<open>replace(year=10000, ...)\<close> raises \<open>ValueError\<close>.\<close>

definition month_range :: "datetime \<Rightarrow> error + pystr \<times> pystr" where
  "month_range now =
     (let start = (midnight now)\<lparr>day := 1\<rparr> in
      if month start = 12 then
        (if 9999 < year start + 1 then Inl ValueError
         else Inr (isoformat start, isoformat (start\<lparr>year := year start + 1, month := 1\<rparr>)))
      else Inr (isoformat start, isoformat (start\<lparr>month := month start + 1\<rparr>)))"

section \<open>Credential store\<close>

text \<open>
  The bcrypt library is not part of the repository; it is a parameter of the model.
  \<open>hashpw\<close> takes the password and the salt drawn by \<open>gensalt()\<close>, \<open>checkpw\<close> the
  password and a stored hash; both may raise.  (\<open>password.encode()\<close> is UTF-8
  encoding, which is injective, and is folded into the two operations.)
\<close>

record bcrypt_lib =
  hashpw :: "pystr \<Rightarrow> nat list \<Rightarrow> error + nat list"
  checkpw :: "pystr \<Rightarrow> nat list \<Rightarrow> error + bool"

text \<open>Table \<open>users(id, username UNIQUE, password_hash, created_at)\<close>.\<close>

record user_row =
  u_id :: int
  u_username :: pystr
  u_password_hash :: "nat list"
  u_created_at :: pystr

text \<open>Table \<open>transactions(id, user_id, type, amount, note, ts)\<close>.\<close>

record tx_row =
  t_id :: int
  t_user_id :: int
  t_type :: pystr
  t_amount :: int
  t_note :: "pystr option"
  t_ts :: pystr

record db =
  users :: "user_row list"
  transactions :: "tx_row list"

text \<open>\<open>INTEGER PRIMARY KEY AUTOINCREMENT\<close>: one more than the largest id used so far
  (rows are never deleted).\<close>

definition next_id :: "int list \<Rightarrow> int" where
  "next_id ids = fold max ids 0 + 1"

definition find_user :: "db \<Rightarrow> pystr \<Rightarrow> user_row option" where
  "find_user d username = find (\<lambda>r. u_username r = username) (users d)"

text \<open>
  \<open>create_user\<close>: hash, then \<open>INSERT\<close>.  The \<open>UNIQUE\<close> constraint on \<open>username\<close> makes
  the insertion raise \<open>IntegrityError\<close> when the name is present.  No length check is
  made here.
\<close>

definition create_user ::
  "bcrypt_lib \<Rightarrow> nat list \<Rightarrow> datetime \<Rightarrow> db \<Rightarrow> pystr \<Rightarrow> pystr \<Rightarrow> error + db" where
  "create_user B salt now d username password =
     (case hashpw B password salt of
        Inl e \<Rightarrow> Inl e
      | Inr pw_hash \<Rightarrow>
          if find_user d username \<noteq> None then Inl IntegrityError
          else Inr (d\<lparr>users := users d @
                 [\<lparr>u_id = next_id (map u_id (users d)), u_username = username,
                   u_password_hash = pw_hash, u_created_at = isoformat now\<rparr>]\<rparr>))"

definition verify_user :: "bcrypt_lib \<Rightarrow> db \<Rightarrow> pystr \<Rightarrow> pystr \<Rightarrow> error + bool" where
  "verify_user B d username password =
     (case find_user d username of
        None \<Rightarrow> Inr False
      | Some u \<Rightarrow> checkpw B password (u_password_hash u))"

section \<open>Ledger store\<close>

text \<open>SQLite stores an \<open>INTEGER\<close> in 64 signed bits.\<close>

definition int64 :: "int \<Rightarrow> bool" where
  "int64 n \<longleftrightarrow> - (2 ^ 63) \<le> n \<and> n < 2 ^ 63"

definition IN :: pystr where "IN = ascii ''IN''"
definition OUT :: pystr where "OUT = ascii ''OUT''"

text \<open>
  \<open>add_tx\<close>: binding a Python integer outside the 64-bit range raises
  \<open>OverflowError\<close>; the two \<open>CHECK\<close> constraints raise \<open>IntegrityError\<close>.  Only
  \<open>amount\<close> can be out of range: it comes from the user's text, while \<open>user_id\<close> is
  always a row id read from the table \<open>users\<close>.  The foreign key on \<open>user_id\<close> is not
  enforced (SQLite leaves foreign keys off unless a pragma turns them on, and the
  source does not).  The timestamp is the clock reading \<open>now\<close>.
\<close>

definition add_tx ::
  "datetime \<Rightarrow> db \<Rightarrow> int \<Rightarrow> pystr \<Rightarrow> int \<Rightarrow> pystr option \<Rightarrow> error + db" where
  "add_tx now d user_id tx_type amount note =
     (if \<not> int64 amount then Inl OverflowError
      else if (tx_type \<noteq> IN \<and> tx_type \<noteq> OUT) \<or> amount < 0 then Inl IntegrityError
      else Inr (d\<lparr>transactions := transactions d @
             [\<lparr>t_id = next_id (map t_id (transactions d)), t_user_id = user_id,
               t_type = tx_type, t_amount = amount, t_note = note,
               t_ts = isoformat now\<rparr>]\<rparr>))"

text \<open>
  The aggregate \<open>SUM\<close> over integers: \<open>NULL\<close> (here \<open>None\<close>) when there is no row, and
  the error ``integer overflow'' as soon as a partial sum leaves the 64-bit range.
\<close>

fun sql_sum_from :: "int \<Rightarrow> int list \<Rightarrow> error + int" where
  "sql_sum_from acc [] = Inr acc"
| "sql_sum_from acc (x # xs) =
     (if int64 (acc + x) then sql_sum_from (acc + x) xs else Inl OperationalError)"

definition sql_sum :: "int list \<Rightarrow> error + int option" where
  "sql_sum xs =
     (if xs = [] then Inr None
      else case sql_sum_from 0 xs of Inl e \<Rightarrow> Inl e | Inr t \<Rightarrow> Inr (Some t))"

definition coalesce :: "int option \<Rightarrow> int \<Rightarrow> int" where
  "coalesce v dflt = (case v of None \<Rightarrow> dflt | Some x \<Rightarrow> x)"

text \<open>The rows selected by the \<open>WHERE\<close> clause of \<open>sum_tx\<close>; \<open>ts\<close> is compared as text.\<close>

definition tx_selected :: "int \<Rightarrow> pystr \<Rightarrow> pystr \<Rightarrow> pystr \<Rightarrow> tx_row \<Rightarrow> bool" where
  "tx_selected user_id tx_type start_iso end_iso r \<longleftrightarrow>
     t_user_id r = user_id \<and> t_type r = tx_type \<and> start_iso \<le> t_ts r \<and> t_ts r < end_iso"

definition sum_tx :: "db \<Rightarrow> int \<Rightarrow> pystr \<Rightarrow> pystr \<Rightarrow> pystr \<Rightarrow> error + int" where
  "sum_tx d user_id tx_type start_iso end_iso =
     (case sql_sum (map t_amount
             (filter (tx_selected user_id tx_type start_iso end_iso) (transactions d))) of
        Inl e \<Rightarrow> Inl e
      | Inr tot \<Rightarrow> Inr (coalesce tot 0))"

section \<open>Session data and dialogue callbacks\<close>

text \<open>
  \<open>context.user_data\<close> is a dictionary with at most five keys; a missing key is
  \<open>None\<close>.  \<open>d.pop(k, None)\<close> sets the key to \<open>None\<close>; \<open>d[k]\<close> on a missing key raises
  \<open>KeyError\<close>.
\<close>

record user_data =
  ud_user_id :: "int option"
  ud_username :: "pystr option"
  ud_reg_username :: "pystr option"
  ud_login_username :: "pystr option"
  ud_tmp_amount :: "int option"

definition is_logged_in :: "user_data \<Rightarrow> bool" where
  "is_logged_in ud \<longleftrightarrow> ud_user_id ud \<noteq> None"

text \<open>The conversation states, and \<open>ConversationHandler.END\<close>.\<close>

definition REG_USERNAME :: int where "REG_USERNAME = 0"
definition REG_PASSWORD :: int where "REG_PASSWORD = 1"
definition LOGIN_USERNAME :: int where "LOGIN_USERNAME = 2"
definition LOGIN_PASSWORD :: int where "LOGIN_PASSWORD = 3"
definition IN_AMOUNT :: int where "IN_AMOUNT = 4"
definition IN_NOTE :: int where "IN_NOTE = 5"
definition OUT_AMOUNT :: int where "OUT_AMOUNT = 6"
definition OUT_NOTE :: int where "OUT_NOTE = 7"
definition END :: int where "END = - 1"

lemmas state_defs =
  REG_USERNAME_def REG_PASSWORD_def LOGIN_USERNAME_def LOGIN_PASSWORD_def
  IN_AMOUNT_def IN_NOTE_def OUT_AMOUNT_def OUT_NOTE_def END_def

text \<open>
  What a callback does: it returns a value (a next state, or \<open>None\<close>) after sending
  the listed replies, or it raises.  In both cases the changes it made to
  \<open>user_data\<close> and to the database before that point stay.  The keyboard attached to
  some replies is not modelled.
\<close>

datatype outcome = Returned "int option" "pystr list" | Raised error

type_synonym result = "outcome \<times> user_data \<times> db"

text \<open>What a callback reads besides the update: the library, the salt that
  \<open>gensalt()\<close> draws and the clock.\<close>

record env =
  e_bcrypt :: bcrypt_lib
  e_salt :: "nat list"
  e_now :: datetime

definition start :: "user_data \<Rightarrow> db \<Rightarrow> result" where
  "start ud d =
     (Returned None
        [ascii ''Halo! Ini bot pencatatan keuangan.'' @ [10] @
         ascii ''Ketik /register untuk daftar atau /login untuk masuk.''], ud, d)"

subsection \<open>Register\<close>

definition register_cmd :: "user_data \<Rightarrow> db \<Rightarrow> result" where
  "register_cmd ud d = (Returned (Some REG_USERNAME) [ascii ''Buat username:''], ud, d)"

definition reg_username :: "pystr \<Rightarrow> user_data \<Rightarrow> db \<Rightarrow> result" where
  "reg_username text ud d =
     (let username = strip text in
      if length username < 3 then
        (Returned (Some REG_USERNAME) [ascii ''Username minimal 3 karakter. Coba lagi:''],
         ud, d)
      else if find_user d username \<noteq> None then
        (Returned (Some REG_USERNAME)
           [ascii ''Username sudah dipakai. Coba username lain:''], ud, d)
      else
        (Returned (Some REG_PASSWORD) [ascii ''Buat password (minimal 6 karakter):''],
         ud\<lparr>ud_reg_username := Some username\<rparr>, d))"

definition reg_password :: "env \<Rightarrow> pystr \<Rightarrow> user_data \<Rightarrow> db \<Rightarrow> result" where
  "reg_password E text ud d =
     (let password = strip text in
      if length password < 6 then
        (Returned (Some REG_PASSWORD) [ascii ''Password minimal 6 karakter. Coba lagi:''],
         ud, d)
      else
        (case ud_reg_username ud of
           None \<Rightarrow> (Raised KeyError, ud, d)
         | Some username \<Rightarrow>
             (case create_user (e_bcrypt E) (e_salt E) (e_now E) d username password of
                Inl e \<Rightarrow> (Raised e, ud, d)
              | Inr d' \<Rightarrow>
                  (Returned (Some END)
                     [ascii ''Registrasi berhasil '' @ [0x2705, 10] @
                      ascii ''Sekarang ketik /login untuk masuk.''],
                   ud\<lparr>ud_reg_username := None\<rparr>, d'))))"

subsection \<open>Login and logout\<close>

definition login_cmd :: "user_data \<Rightarrow> db \<Rightarrow> result" where
  "login_cmd ud d = (Returned (Some LOGIN_USERNAME) [ascii ''Username:''], ud, d)"

definition login_username :: "pystr \<Rightarrow> user_data \<Rightarrow> db \<Rightarrow> result" where
  "login_username text ud d =
     (Returned (Some LOGIN_PASSWORD) [ascii ''Password:''],
      ud\<lparr>ud_login_username := Some (strip text)\<rparr>, d)"

definition login_failed :: pystr where
  "login_failed =
     ascii ''Login gagal '' @ [0x274C] @ ascii '' Username/password salah.'' @ [10] @
     ascii ''Ketik /login untuk coba lagi.''"

definition login_password :: "env \<Rightarrow> pystr \<Rightarrow> user_data \<Rightarrow> db \<Rightarrow> result" where
  "login_password E text ud d =
     (let username = (case ud_login_username ud of None \<Rightarrow> [] | Some u \<Rightarrow> u);
          password = strip text;
          ud1 = ud\<lparr>ud_login_username := None\<rparr>
      in case verify_user (e_bcrypt E) d username password of
           Inl e \<Rightarrow> (Raised e, ud1, d)
         | Inr ok \<Rightarrow>
             if \<not> ok then (Returned (Some END) [login_failed], ud1, d)
             else
               (case find_user d username of
                  None \<Rightarrow> (Raised TypeError, ud1, d)
                | Some u \<Rightarrow>
                    (Returned (Some END)
                       [ascii ''Login berhasil '' @ [0x2705] @ ascii '' Selamat datang, '' @
                        username @ ascii ''!''],
                     ud1\<lparr>ud_user_id := Some (u_id u), ud_username := Some username\<rparr>, d)))"

definition logout_cmd :: "user_data \<Rightarrow> db \<Rightarrow> result" where
  "logout_cmd ud d =
     (Returned None [ascii ''Kamu sudah logout. Ketik /login untuk masuk lagi.''],
      ud\<lparr>ud_user_id := None, ud_username := None\<rparr>, d)"

subsection \<open>Income and expense entry\<close>

definition not_logged_in :: pystr where
  "not_logged_in = ascii ''Kamu belum login. Ketik /login dulu.''"

definition amount_must_be_number :: pystr where
  "amount_must_be_number = ascii ''Nominal harus angka. Coba lagi:''"

definition ask_note :: pystr where
  "ask_note = ascii ''Catatan (boleh kosong, ketik '' @ [39, 45, 39] @ ascii '' untuk skip):''"

definition in_start :: "user_data \<Rightarrow> db \<Rightarrow> result" where
  "in_start ud d =
     (if \<not> is_logged_in ud then (Returned (Some END) [not_logged_in], ud, d)
      else
        (Returned (Some IN_AMOUNT)
           [ascii ''Masukkan nominal UANG MASUK (angka saja). Contoh: 50000''], ud, d))"

definition in_amount :: "pystr \<Rightarrow> user_data \<Rightarrow> db \<Rightarrow> result" where
  "in_amount text ud d =
     (let text' = replace_empty 44 (replace_empty 46 (strip text)) in
      if \<not> isdigit text' then (Returned (Some IN_AMOUNT) [amount_must_be_number], ud, d)
      else
        (case int_of_digits text' of
           Inl e \<Rightarrow> (Raised e, ud, d)
         | Inr n \<Rightarrow> (Returned (Some IN_NOTE) [ask_note], ud\<lparr>ud_tmp_amount := Some n\<rparr>, d)))"

definition in_note :: "env \<Rightarrow> pystr \<Rightarrow> user_data \<Rightarrow> db \<Rightarrow> result" where
  "in_note E text ud d =
     (let note = strip text;
          note = (if note = ascii ''-'' then None else Some note);
          amount = (case ud_tmp_amount ud of None \<Rightarrow> 0 | Some a \<Rightarrow> a);
          ud1 = ud\<lparr>ud_tmp_amount := None\<rparr>
      in case ud_user_id ud1 of
           None \<Rightarrow> (Raised KeyError, ud1, d)
         | Some uid \<Rightarrow>
             (case add_tx (e_now E) d uid IN amount note of
                Inl e \<Rightarrow> (Raised e, ud1, d)
              | Inr d' \<Rightarrow>
                  (Returned (Some END)
                     [[0x2705] @ ascii '' Uang masuk tercatat: '' @ rupiah amount], ud1, d')))"

definition out_start :: "user_data \<Rightarrow> db \<Rightarrow> result" where
  "out_start ud d =
     (if \<not> is_logged_in ud then (Returned (Some END) [not_logged_in], ud, d)
      else
        (Returned (Some OUT_AMOUNT)
           [ascii ''Masukkan nominal UANG KELUAR (angka saja). Contoh: 25000''], ud, d))"

definition out_amount :: "pystr \<Rightarrow> user_data \<Rightarrow> db \<Rightarrow> result" where
  "out_amount text ud d =
     (let text' = replace_empty 44 (replace_empty 46 (strip text)) in
      if \<not> isdigit text' then (Returned (Some OUT_AMOUNT) [amount_must_be_number], ud, d)
      else
        (case int_of_digits text' of
           Inl e \<Rightarrow> (Raised e, ud, d)
         | Inr n \<Rightarrow> (Returned (Some OUT_NOTE) [ask_note], ud\<lparr>ud_tmp_amount := Some n\<rparr>, d)))"

definition out_note :: "env \<Rightarrow> pystr \<Rightarrow> user_data \<Rightarrow> db \<Rightarrow> result" where
  "out_note E text ud d =
     (let note = strip text;
          note = (if note = ascii ''-'' then None else Some note);
          amount = (case ud_tmp_amount ud of None \<Rightarrow> 0 | Some a \<Rightarrow> a);
          ud1 = ud\<lparr>ud_tmp_amount := None\<rparr>
      in case ud_user_id ud1 of
           None \<Rightarrow> (Raised KeyError, ud1, d)
         | Some uid \<Rightarrow>
             (case add_tx (e_now E) d uid OUT amount note of
                Inl e \<Rightarrow> (Raised e, ud1, d)
              | Inr d' \<Rightarrow>
                  (Returned (Some END)
                     [[0x2705] @ ascii '' Uang keluar tercatat: '' @ rupiah amount], ud1, d')))"

subsection \<open>Reports\<close>

definition report_in_today :: "env \<Rightarrow> user_data \<Rightarrow> db \<Rightarrow> result" where
  "report_in_today E ud d =
     (if \<not> is_logged_in ud then (Returned None [not_logged_in], ud, d)
      else
        (case today_range (e_now E) of
           Inl e \<Rightarrow> (Raised e, ud, d)
         | Inr (s, e) \<Rightarrow>
             (case ud_user_id ud of
                None \<Rightarrow> (Raised KeyError, ud, d)
              | Some uid \<Rightarrow>
                  (case sum_tx d uid IN s e of
                     Inl err \<Rightarrow> (Raised err, ud, d)
                   | Inr tot \<Rightarrow>
                       (Returned None
                          [[0x1F4C5] @ ascii '' Uang MASUK hari ini: '' @ rupiah tot],
                        ud, d)))))"

definition report_out_week :: "env \<Rightarrow> user_data \<Rightarrow> db \<Rightarrow> result" where
  "report_out_week E ud d =
     (if \<not> is_logged_in ud then (Returned None [not_logged_in], ud, d)
      else
        (case week_range_monday (e_now E) of
           Inl e \<Rightarrow> (Raised e, ud, d)
         | Inr (s, e) \<Rightarrow>
             (case ud_user_id ud of
                None \<Rightarrow> (Raised KeyError, ud, d)
              | Some uid \<Rightarrow>
                  (case sum_tx d uid OUT s e of
                     Inl err \<Rightarrow> (Raised err, ud, d)
                   | Inr tot \<Rightarrow>
                       (Returned None
                          [[0x1F5D3, 0xFE0F] @ ascii '' Uang KELUAR minggu ini (Senin'' @
                           [0x2013] @ ascii ''Minggu): '' @ rupiah tot],
                        ud, d)))))"

definition report_month :: "env \<Rightarrow> user_data \<Rightarrow> db \<Rightarrow> result" where
  "report_month E ud d =
     (if \<not> is_logged_in ud then (Returned None [not_logged_in], ud, d)
      else
        (case month_range (e_now E) of
           Inl e \<Rightarrow> (Raised e, ud, d)
         | Inr (s, e) \<Rightarrow>
             (case ud_user_id ud of
                None \<Rightarrow> (Raised KeyError, ud, d)
              | Some uid \<Rightarrow>
                  (case sum_tx d uid IN s e of
                     Inl err \<Rightarrow> (Raised err, ud, d)
                   | Inr masuk \<Rightarrow>
                       (case sum_tx d uid OUT s e of
                          Inl err \<Rightarrow> (Raised err, ud, d)
                        | Inr keluar \<Rightarrow>
                            (let saldo = masuk - keluar in
                             (Returned None
                                [[0x1F4C6] @ ascii '' Rekap BULAN ini:'' @ [10] @
                                 ascii ''- Masuk : '' @ rupiah masuk @ [10] @
                                 ascii ''- Keluar: '' @ rupiah keluar @ [10] @
                                 ascii ''- Saldo : '' @ rupiah saldo],
                              ud, d)))))))"

definition menu_router :: "env \<Rightarrow> pystr \<Rightarrow> user_data \<Rightarrow> db \<Rightarrow> result" where
  "menu_router E text ud d =
     (let text = strip text in
      if text = [0x1F4C5] @ ascii '' Masuk Hari Ini'' then report_in_today E ud d
      else if text = [0x1F5D3, 0xFE0F] @ ascii '' Keluar Minggu Ini'' then
        report_out_week E ud d
      else if text = [0x1F4C6] @ ascii '' Rekap Bulan Ini'' then report_month E ud d
      else if text = [0x1F6AA] @ ascii '' Logout'' then logout_cmd ud d
      else (Returned None [], ud, d))"

definition cancel :: "user_data \<Rightarrow> db \<Rightarrow> result" where
  "cancel ud d =
     (Returned (Some END) [ascii ''Dibatalkan.''],
      ud\<lparr>ud_tmp_amount := None, ud_reg_username := None, ud_login_username := None\<rparr>, d)"

section \<open>Dispatch of updates\<close>

text \<open>
  An incoming message either starts with a bot command (\<open>Command c\<close>, where \<open>c\<close> is
  the command name in lower case, as \<open>CommandHandler\<close> compares it) or is any other
  text (\<open>Text t\<close>).
\<close>

datatype update = Command string | Text pystr

definition message_text :: "update \<Rightarrow> pystr" where
  "message_text u = (case u of Command c \<Rightarrow> ascii ''/'' @ ascii c | Text t \<Rightarrow> t)"

type_synonym callback = "env \<Rightarrow> pystr \<Rightarrow> user_data \<Rightarrow> db \<Rightarrow> result"

text \<open>A handler is a test on the update together with a callback.\<close>

type_synonym handler = "(update \<Rightarrow> bool) \<times> callback"

text \<open>\<open>CommandHandler(name, cb)\<close>.\<close>

definition CommandHandler :: "string \<Rightarrow> (user_data \<Rightarrow> db \<Rightarrow> result) \<Rightarrow> handler" where
  "CommandHandler name cb = ((\<lambda>u. u = Command name), (\<lambda>E text. cb))"

text \<open>\<open>filters.TEXT & ~filters.COMMAND\<close>: a non-empty text that is no command.\<close>

definition text_not_command :: "update \<Rightarrow> bool" where
  "text_not_command u = (case u of Command c \<Rightarrow> False | Text t \<Rightarrow> t \<noteq> [])"

text \<open>
  \<open>filters.Regex("^label$")\<close>: \<open>re.search\<close> on the message text; \<open>$\<close> also matches
  just before a final newline.  A command text starts with a slash, the labels do not.
\<close>

definition regex_exact :: "pystr \<Rightarrow> update \<Rightarrow> bool" where
  "regex_exact label u =
     (case u of Command c \<Rightarrow> False | Text t \<Rightarrow> t = label \<or> t = label @ [10])"

text \<open>\<open>ConversationHandler(entry_points, states, fallbacks)\<close>.\<close>

record conversation =
  entry_points :: "handler list"
  states :: "int \<Rightarrow> handler list"
  fallbacks :: "handler list"

definition first_match :: "handler list \<Rightarrow> update \<Rightarrow> callback option" where
  "first_match hs u = map_option snd (find (\<lambda>h. fst h u) hs)"

text \<open>
  \<open>ConversationHandler.check_update\<close> (with \<open>allow_reentry\<close> off, the default): with
  no state for the conversation only the entry points are tried; with a state, the
  handlers of that state and then the fallbacks.  \<open>None\<close>: the update is not for this
  conversation handler.
\<close>

definition conv_check_update ::
  "conversation \<Rightarrow> int option \<Rightarrow> update \<Rightarrow> callback option" where
  "conv_check_update C st u =
     (case st of
        None \<Rightarrow> first_match (entry_points C) u
      | Some s \<Rightarrow>
          (case first_match (states C s) u of
             Some cb \<Rightarrow> Some cb
           | None \<Rightarrow> first_match (fallbacks C) u))"

text \<open>
  The state after the callback: \<open>END\<close> removes the state, another returned state
  replaces it, and nothing changes when the callback returns \<open>None\<close> or raises.
\<close>

definition update_state :: "outcome \<Rightarrow> int option \<Rightarrow> int option" where
  "update_state out old =
     (case out of
        Raised e \<Rightarrow> old
      | Returned None rs \<Rightarrow> old
      | Returned (Some s) rs \<Rightarrow> if s = END then None else Some s)"

datatype conv_name = RegConv | LoginConv | InConv | OutConv

definition reg_conv :: conversation where
  "reg_conv =
     \<lparr>entry_points = [CommandHandler ''register'' register_cmd],
      states = (\<lambda>s.
        if s = REG_USERNAME then [(text_not_command, \<lambda>E. reg_username)]
        else if s = REG_PASSWORD then [(text_not_command, reg_password)]
        else []),
      fallbacks = [CommandHandler ''cancel'' cancel]\<rparr>"

definition login_conv :: conversation where
  "login_conv =
     \<lparr>entry_points = [CommandHandler ''login'' login_cmd],
      states = (\<lambda>s.
        if s = LOGIN_USERNAME then [(text_not_command, \<lambda>E. login_username)]
        else if s = LOGIN_PASSWORD then [(text_not_command, login_password)]
        else []),
      fallbacks = [CommandHandler ''cancel'' cancel]\<rparr>"

definition in_conv :: conversation where
  "in_conv =
     \<lparr>entry_points = [(regex_exact ([0x2795] @ ascii '' Uang Masuk''), \<lambda>E text. in_start)],
      states = (\<lambda>s.
        if s = IN_AMOUNT then [(text_not_command, \<lambda>E. in_amount)]
        else if s = IN_NOTE then [(text_not_command, in_note)]
        else []),
      fallbacks = [CommandHandler ''cancel'' cancel]\<rparr>"

definition out_conv :: conversation where
  "out_conv =
     \<lparr>entry_points = [(regex_exact ([0x2796] @ ascii '' Uang Keluar''), \<lambda>E text. out_start)],
      states = (\<lambda>s.
        if s = OUT_AMOUNT then [(text_not_command, \<lambda>E. out_amount)]
        else if s = OUT_NOTE then [(text_not_command, out_note)]
        else []),
      fallbacks = [CommandHandler ''cancel'' cancel]\<rparr>"

text \<open>
  The state of one chat: the state of each of the four conversation handlers
  (\<open>None\<close>: that dialogue is not active), \<open>user_data\<close>, and the database.
\<close>

record world =
  w_conv :: "conv_name \<Rightarrow> int option"
  w_user_data :: user_data
  w_db :: db

datatype app_handler = Plain handler | Conv conv_name conversation

text \<open>The handlers in the order \<open>main\<close> adds them (all in the same group).\<close>

definition handlers :: "app_handler list" where
  "handlers =
     [Plain (CommandHandler ''start'' start),
      Conv RegConv reg_conv,
      Conv LoginConv login_conv,
      Conv InConv in_conv,
      Conv OutConv out_conv,
      Plain (text_not_command, menu_router),
      Plain (CommandHandler ''logout'' logout_cmd)]"

definition run_callback ::
  "callback \<Rightarrow> env \<Rightarrow> update \<Rightarrow> world \<Rightarrow> outcome \<times> world" where
  "run_callback cb E u w =
     (case cb E (message_text u) (w_user_data w) (w_db w) of
        (out, ud, d) \<Rightarrow> (out, w\<lparr>w_user_data := ud, w_db := d\<rparr>))"

text \<open>
  \<open>Application.process_update\<close>: the first handler that accepts the update handles
  it, and no later handler sees it.  The result is \<open>None\<close> when no handler accepts.
\<close>

fun process :: "app_handler list \<Rightarrow> env \<Rightarrow> update \<Rightarrow> world \<Rightarrow> outcome option \<times> world" where
  "process [] E u w = (None, w)"
| "process (Plain h # hs) E u w =
     (if fst h u then
        (case run_callback (snd h) E u w of (out, w') \<Rightarrow> (Some out, w'))
      else process hs E u w)"
| "process (Conv n C # hs) E u w =
     (case conv_check_update C (w_conv w n) u of
        None \<Rightarrow> process hs E u w
      | Some cb \<Rightarrow>
          (case run_callback cb E u w of
             (out, w') \<Rightarrow>
               (Some out, w'\<lparr>w_conv := (w_conv w')(n := update_state out (w_conv w n))\<rparr>)))"

definition process_update :: "env \<Rightarrow> update \<Rightarrow> world \<Rightarrow> outcome option \<times> world" where
  "process_update E u w = process handlers E u w"

text \<open>A run of the bot on a list of updates, each with its own clock reading and salt.\<close>

fun run :: "(env \<times> update) list \<Rightarrow> world \<Rightarrow> world" where
  "run [] w = w"
| "run ((E, u) # evs) w = run evs (snd (process_update E u w))"

definition empty_user_data :: user_data where
  "empty_user_data =
     \<lparr>ud_user_id = None, ud_username = None, ud_reg_username = None,
      ud_login_username = None, ud_tmp_amount = None\<rparr>"

text \<open>At start-up no dialogue is active and \<open>user_data\<close> is empty; the database file
  may hold anything.\<close>

definition initial :: "db \<Rightarrow> world" where
  "initial d = \<lparr>w_conv = (\<lambda>n. None), w_user_data = empty_user_data, w_db = d\<rparr>"

inductive reachable :: "world \<Rightarrow> bool" where
  start: "reachable (initial d)"
| step: "reachable w \<Longrightarrow> reachable (snd (process_update E u w))"

text \<open>The dialogues that are active in a state.\<close>

definition active :: "world \<Rightarrow> conv_name set" where
  "active w = {n. w_conv w n \<noteq> None}"

text \<open>
  A stand-in for the library, used only to evaluate the model at concrete inputs: the
  ``hash'' is the password itself.
\<close>

definition plain_bcrypt :: bcrypt_lib where
  "plain_bcrypt = \<lparr>hashpw = (\<lambda>p s. Inr p), checkpw = (\<lambda>p h. Inr (p = h))\<rparr>"

definition empty_db :: db where
  "empty_db = \<lparr>users = [], transactions = []\<rparr>"

definition noon :: datetime where
  "noon = \<lparr>year = 2024, month = 12, day = 31, hour = 12, minute = 0, second = 0,
            microsecond = 0\<rparr>"

definition alice_row :: user_row where
  "alice_row =
     \<lparr>u_id = 1, u_username = ascii ''alice'', u_password_hash = ascii ''secret1'',
      u_created_at = ascii ''2024-12-31T12:00:00+08:00''\<rparr>"

definition alice_db :: db where
  "alice_db = \<lparr>users = [alice_row], transactions = []\<rparr>"

definition alice_session :: user_data where
  "alice_session =
     \<lparr>ud_user_id = Some 1, ud_username = Some (ascii ''alice''), ud_reg_username = None,
      ud_login_username = None, ud_tmp_amount = Some 50000\<rparr>"

definition test_env :: env where
  "test_env = \<lparr>e_bcrypt = plain_bcrypt, e_salt = [], e_now = noon\<rparr>"

subsection \<open>Notions used to state the properties of the dispatch\<close>

text \<open>The states that the \<open>states\<close> table of each conversation handler lists.\<close>

definition conv_states :: "conv_name \<Rightarrow> int set" where
  "conv_states n =
     (case n of
        RegConv \<Rightarrow> {REG_USERNAME, REG_PASSWORD}
      | LoginConv \<Rightarrow> {LOGIN_USERNAME, LOGIN_PASSWORD}
      | InConv \<Rightarrow> {IN_AMOUNT, IN_NOTE}
      | OutConv \<Rightarrow> {OUT_AMOUNT, OUT_NOTE})"

definition state_ok :: "conv_name \<Rightarrow> int option \<Rightarrow> bool" where
  "state_ok n st \<longleftrightarrow> (case st of None \<Rightarrow> True | Some s \<Rightarrow> s \<in> conv_states n)"

definition keeps_states :: "app_handler \<Rightarrow> bool" where
  "keeps_states h \<longleftrightarrow>
     (case h of
        Plain p \<Rightarrow> True
      | Conv n C \<Rightarrow>
          (\<forall>st u cb E t ud d. conv_check_update C st u = Some cb \<longrightarrow> state_ok n st \<longrightarrow>
             state_ok n (update_state (fst (cb E t ud d)) st)))"

text \<open>The active dialogue that comes first in the order of the handlers.\<close>

definition conv_order :: "conv_name list" where
  "conv_order = [RegConv, LoginConv, InConv, OutConv]"

definition first_active :: "world \<Rightarrow> conv_name option" where
  "first_active w = find (\<lambda>n. w_conv w n \<noteq> None) conv_order"

subsection \<open>Notions used to state the properties of the note step\<close>

text \<open>
  The currency format in the words of the specification: the decimal digits in
  groups of three, counted from the right and separated by a full stop (code point
  46), so that every group but the first has exactly three digits.
\<close>

fun thousands :: "nat \<Rightarrow> pystr" where
  "thousands n =
     (if n < 1000 then dec_digits n else thousands (n div 1000) @ [46] @ zpad 3 (n mod 1000))"

declare thousands.simps [simp del]

text \<open>\<open>context.user_data.pop("tmp_amount", 0)\<close>: the amount the note step records.\<close>

definition scratch_amount :: "user_data \<Rightarrow> int" where
  "scratch_amount ud = (case ud_tmp_amount ud of None \<Rightarrow> 0 | Some a \<Rightarrow> a)"

text \<open>A ledger with entries inside, outside and on the two ends of 31 December 2024.\<close>

definition ledger_db :: db where
  "ledger_db =
     \<lparr>users = [alice_row],
      transactions =
        [\<lparr>t_id = 1, t_user_id = 1, t_type = IN, t_amount = 300, t_note = None,
          t_ts = ascii ''2024-12-31T00:00:00+08:00''\<rparr>,
         \<lparr>t_id = 2, t_user_id = 1, t_type = IN, t_amount = 50000, t_note = None,
          t_ts = ascii ''2024-12-31T12:00:00.250000+08:00''\<rparr>,
         \<lparr>t_id = 3, t_user_id = 1, t_type = OUT, t_amount = 20000, t_note = None,
          t_ts = ascii ''2024-12-31T13:00:00+08:00''\<rparr>,
         \<lparr>t_id = 4, t_user_id = 2, t_type = IN, t_amount = 999, t_note = None,
          t_ts = ascii ''2024-12-31T14:00:00+08:00''\<rparr>,
         \<lparr>t_id = 5, t_user_id = 1, t_type = IN, t_amount = 7000, t_note = None,
          t_ts = ascii ''2025-01-01T00:00:00+08:00''\<rparr>,
         \<lparr>t_id = 6, t_user_id = 1, t_type = IN, t_amount = 80, t_note = None,
          t_ts = ascii ''2024-12-30T23:59:59.999999+08:00''\<rparr>]\<rparr>"

text \<open>Two entries whose sum is \<open>2 ^ 63\<close>.\<close>

definition big_db1 :: db where
  "big_db1 =
     \<lparr>users = [alice_row],
      transactions =
        [\<lparr>t_id = 1, t_user_id = 1, t_type = IN, t_amount = 9223372036854775807,
          t_note = None, t_ts = ascii ''2024-12-31T12:00:00+08:00''\<rparr>]\<rparr>"

definition big_db2 :: db where
  "big_db2 =
     \<lparr>users = [alice_row],
      transactions =
        [\<lparr>t_id = 1, t_user_id = 1, t_type = IN, t_amount = 9223372036854775807,
          t_note = None, t_ts = ascii ''2024-12-31T12:00:00+08:00''\<rparr>,
         \<lparr>t_id = 2, t_user_id = 1, t_type = IN, t_amount = 1,
          t_note = None, t_ts = ascii ''2024-12-31T12:00:00+08:00''\<rparr>]\<rparr>"

text \<open>A session that logs in, enters an amount, logs out and then sends a note.\<close>

definition logged_out_at_note :: world where
  "logged_out_at_note =
     run [(test_env, Command ''login''), (test_env, Text (ascii ''alice'')),
          (test_env, Text (ascii ''secret1'')),
          (test_env, Text ([0x2795] @ ascii '' Uang Masuk'')),
          (test_env, Text (ascii ''5000'')), (test_env, Command ''logout''),
          (test_env, Text (ascii ''lunch''))] (initial alice_db)"

subsection \<open>Notions used to state the properties of registration\<close>

text \<open>The callbacks a handler can run, and all callbacks of the application.\<close>

definition handler_callbacks :: "app_handler \<Rightarrow> callback set" where
  "handler_callbacks h =
     (case h of
        Plain p \<Rightarrow> {snd p}
      | Conv n C \<Rightarrow>
          snd ` (set (entry_points C) \<union> (\<Union>s. set (states C s)) \<union> set (fallbacks C)))"

definition callbacks :: "callback set" where
  "callbacks =
     {(\<lambda>E text. start), (\<lambda>E text. register_cmd), (\<lambda>E. reg_username), reg_password,
      (\<lambda>E text. login_cmd), (\<lambda>E. login_username), login_password,
      (\<lambda>E text. in_start), (\<lambda>E. in_amount), in_note,
      (\<lambda>E text. out_start), (\<lambda>E. out_amount), out_note,
      menu_router, (\<lambda>E text. logout_cmd), (\<lambda>E text. cancel)}"

text \<open>The username kept in \<open>user_data\<close> between the two registration steps, if
  any, has at least three characters.\<close>

definition reg_scratch_ok :: "user_data \<Rightarrow> bool" where
  "reg_scratch_ok ud \<longleftrightarrow> (case ud_reg_username ud of None \<Rightarrow> True | Some name \<Rightarrow> 3 \<le> length name)"

subsection \<open>Notions used to state the properties of the ledger\<close>

text \<open>The \<open>CHECK(amount >= 0)\<close> constraint, as a property of the table.\<close>

definition amounts_ok :: "db \<Rightarrow> bool" where
  "amounts_ok d \<longleftrightarrow> list_all (\<lambda>r. 0 \<le> t_amount r) (transactions d)"

text \<open>The sum that \<open>sum_tx\<close> is meant to return.\<close>

definition selected_total :: "db \<Rightarrow> int \<Rightarrow> pystr \<Rightarrow> pystr \<Rightarrow> pystr \<Rightarrow> int" where
  "selected_total d user_id tx_type start_iso end_iso =
     sum_list (map t_amount
       (filter (\<lambda>r. t_user_id r = user_id \<and> t_type r = tx_type \<and>
                    start_iso \<le> t_ts r \<and> t_ts r < end_iso) (transactions d)))"

subsection \<open>Notions used to state the properties of the report ranges\<close>

text \<open>
  The fields of a \<open>datetime\<close> from the most to the least significant.  Lists are
  ordered lexicographically, so \<open>dt_key a < dt_key b\<close> says that \<open>a\<close> is the earlier
  of two instants of the same offset.
\<close>

definition dt_key :: "datetime \<Rightarrow> nat list" where
  "dt_key d = [year d, month d, day d, hour d, minute d, second d, microsecond d]"

text \<open>A calendar date, whatever the year; and the date fields alone.\<close>

definition valid_date :: "datetime \<Rightarrow> bool" where
  "valid_date d \<longleftrightarrow>
     1 \<le> year d \<and> 1 \<le> month d \<and> month d \<le> 12 \<and>
     1 \<le> day d \<and> day d \<le> days_in_month (year d) (month d)"

definition date_key :: "datetime \<Rightarrow> nat list" where
  "date_key d = [year d, month d, day d]"

definition at_midnight :: "datetime \<Rightarrow> bool" where
  "at_midnight d \<longleftrightarrow> hour d = 0 \<and> minute d = 0 \<and> second d = 0 \<and> microsecond d = 0"

text \<open>The Monday on or before a day.\<close>

definition monday_of :: "datetime \<Rightarrow> datetime" where
  "monday_of d = (prev_day ^^ weekday d) d"

text \<open>Instants around the turn of the year 2024/2025, and the last day of year 9999.\<close>

definition last_of_2024 :: datetime where
  "last_of_2024 = \<lparr>year = 2024, month = 12, day = 31, hour = 23, minute = 59, second = 59,
                    microsecond = 0\<rparr>"

definition first_of_2025 :: datetime where
  "first_of_2025 = \<lparr>year = 2025, month = 1, day = 1, hour = 0, minute = 0, second = 0,
                     microsecond = 0\<rparr>"

definition last_day_of_9999 :: datetime where
  "last_day_of_9999 = \<lparr>year = 9999, month = 12, day = 31, hour = 12, minute = 0, second = 0,
                        microsecond = 0\<rparr>"

subsection \<open>A library that refuses long passwords, and further sessions\<close>

text \<open>
  The number of bytes of \<open>s.encode()\<close> (UTF-8).
\<close>

definition utf8_len :: "pystr \<Rightarrow> nat" where
  "utf8_len s =
     sum_list (map (\<lambda>c. if c < 0x80 then 1 else if c < 0x800 then 2
                        else if c < 0x10000 then 3 else 4) s)"

text \<open>
  A second stand-in for the library.  Like the \<open>bcrypt\<close> package from version 5.0 on,
  it raises \<open>ValueError\<close> for a password of more than 72 bytes, in \<open>hashpw\<close> and in
  \<open>checkpw\<close>; otherwise the ``hash'' is again the password itself.
\<close>

definition strict_bcrypt :: bcrypt_lib where
  "strict_bcrypt =
     \<lparr>hashpw = (\<lambda>p s. if 72 < utf8_len p then Inl ValueError else Inr p),
      checkpw = (\<lambda>p h. if 72 < utf8_len p then Inl ValueError else Inr (p = h))\<rparr>"

definition strict_env :: env where
  "strict_env = \<lparr>e_bcrypt = strict_bcrypt, e_salt = [], e_now = noon\<rparr>"

text \<open>The letter \<open>a\<close>, 73 times.\<close>

definition long_password :: pystr where
  "long_password = replicate 73 97"

definition bobby_row :: user_row where
  "bobby_row =
     \<lparr>u_id = 2, u_username = ascii ''bobby'', u_password_hash = ascii ''hunter22'',
      u_created_at = ascii ''2024-12-31T12:00:00+08:00''\<rparr>"

definition two_users_db :: db where
  "two_users_db = \<lparr>users = [alice_row, bobby_row], transactions = []\<rparr>"

text \<open>
  Two sessions at the password step of the login dialogue, over the store that holds
  only alice: one has given the name \<open>alice\<close>, the other the name \<open>bobby\<close>.
\<close>

definition alice_at_password :: world where
  "alice_at_password =
     run [(strict_env, Command ''login''), (strict_env, Text (ascii ''alice''))]
       (initial alice_db)"

definition bobby_at_password :: world where
  "bobby_at_password =
     run [(strict_env, Command ''login''), (strict_env, Text (ascii ''bobby''))]
       (initial alice_db)"

text \<open>A session that logs in, opens the income dialogue and enters \<open>2 ^ 63\<close>.\<close>

definition big_amount_at_note :: world where
  "big_amount_at_note =
     run [(test_env, Command ''login''), (test_env, Text (ascii ''alice'')),
          (test_env, Text (ascii ''secret1'')),
          (test_env, Text ([0x2795] @ ascii '' Uang Masuk'')),
          (test_env, Text (ascii ''9223372036854775808''))] (initial alice_db)"

subsection \<open>Notions used to state what trimming does\<close>

text \<open>
  A text of white space only, and a text that neither starts nor ends with white
  space.  Every text is a blank text, a trimmed text and a blank text in a row, and
  \<open>strip\<close> returns the one in the middle.
\<close>

definition blank :: "pystr \<Rightarrow> bool" where
  "blank s \<longleftrightarrow> list_all isspace s"

definition trimmed :: "pystr \<Rightarrow> bool" where
  "trimmed s \<longleftrightarrow> s = [] \<or> (\<not> isspace (hd s) \<and> \<not> isspace (last s))"

section \<open>Properties\<close>

text \<open>
  C7.  The two failures of a login are the same to the caller as long as the library
  answers: for the wrong password \<open>wrong\<close>, \<open>verify_user\<close> returns \<open>False\<close> for the
  absent name \<open>bobby\<close> and for the stored name \<open>alice\<close>.  They differ when the library
  raises on the password.  \<open>verify_user\<close> returns \<open>False\<close> for an absent name before it
  calls the library, and calls \<open>checkpw\<close> unguarded for a stored name: with a library
  that refuses a password of more than 72 bytes, the same password of 73 letters gives
  \<open>False\<close> for \<open>bobby\<close> and \<open>ValueError\<close> for \<open>alice\<close>.  The login dialogue then replies
  that the login failed and ends for \<open>bobby\<close>, and for \<open>alice\<close> raises without a reply
  and stays at the password step: the caller learns that \<open>alice\<close> is registered.
\<close>

theorem login_failures_distinguishable:
  "find_user alice_db (ascii ''bobby'') = None \<and>
   find_user alice_db (ascii ''alice'') = Some alice_row \<and>
   verify_user strict_bcrypt alice_db (ascii ''bobby'') (ascii ''wrong'') = Inr False \<and>
   verify_user strict_bcrypt alice_db (ascii ''alice'') (ascii ''wrong'') = Inr False \<and>
   utf8_len long_password = 73 \<and>
   verify_user strict_bcrypt alice_db (ascii ''bobby'') long_password = Inr False \<and>
   verify_user strict_bcrypt alice_db (ascii ''alice'') long_password = Inl ValueError \<and>
   w_conv bobby_at_password LoginConv = Some LOGIN_PASSWORD \<and>
   w_conv alice_at_password LoginConv = Some LOGIN_PASSWORD \<and>
   fst (process_update strict_env (Text long_password) bobby_at_password)
     = Some (Returned (Some END) [login_failed]) \<and>
   w_conv (snd (process_update strict_env (Text long_password) bobby_at_password)) LoginConv
     = None \<and>
   fst (process_update strict_env (Text long_password) alice_at_password)
     = Some (Raised ValueError) \<and>
   w_conv (snd (process_update strict_env (Text long_password) alice_at_password)) LoginConv
     = Some LOGIN_PASSWORD"
  by code_simp

subsection \<open>Register, then verify\<close>

lemma find_append_one:
  "find P (xs @ [x]) =
     (case find P xs of Some y \<Rightarrow> Some y | None \<Rightarrow> if P x then Some x else None)"
  by (induction xs) auto

lemma find_user_append:
  "find_user (d\<lparr>users := users d @ [r]\<rparr>) u =
     (case find_user d u of
        Some x \<Rightarrow> Some x
      | None \<Rightarrow> if u_username r = u then Some r else None)"
  by (simp add: find_user_def find_append_one)

lemma fold_max_ge: "(a::int) \<le> fold max xs a \<and> (\<forall>x\<in>set xs. x \<le> fold max xs a)"
proof (induction xs arbitrary: a)
  case Nil
  show ?case by simp
next
  case (Cons y ys)
  from Cons [of "max y a"] show ?case by auto
qed

lemma next_id_fresh: "x \<in> set ids \<Longrightarrow> x < next_id ids"
  using fold_max_ge [of 0 ids] by (auto simp: next_id_def)

text \<open>
  C1, as amended.  \<open>create_user\<close> puts no condition on the lengths.  For a username
  that is not in the store and a password that the library hashes, it adds exactly
  one row, with that username, that hash and an id larger than every id in the store,
  and leaves the transactions alone.  \<open>verify_user\<close> with the same pair then returns
  what the library's \<open>checkpw\<close> answers for the password and the hash just stored: a
  truth value, not an identity.  The login step that follows ends as that answer says.
  When the answer is \<open>True\<close> it looks the user up by name and puts into the session
  the id of exactly the row that \<open>create_user\<close> added; when it is \<open>False\<close> it reports
  a failed login; when the library raises, so does the step.
\<close>

theorem register_then_verify:
  assumes "find_user d u = None"
    and "hashpw (e_bcrypt E) (strip t) (e_salt E) = Inr h"
  shows "\<exists>d' r. create_user (e_bcrypt E) (e_salt E) (e_now E) d u (strip t) = Inr d' \<and>
           users d' = users d @ [r] \<and> transactions d' = transactions d \<and>
           u_username r = u \<and> u_password_hash r = h \<and>
           (\<forall>x\<in>set (users d). u_id x < u_id r) \<and>
           find_user d' u = Some r \<and>
           verify_user (e_bcrypt E) d' u (strip t) = checkpw (e_bcrypt E) (strip t) h \<and>
           login_password E t (ud\<lparr>ud_login_username := Some u\<rparr>) d' =
             (case checkpw (e_bcrypt E) (strip t) h of
                Inl e \<Rightarrow> (Raised e, ud\<lparr>ud_login_username := None\<rparr>, d')
              | Inr ok \<Rightarrow>
                  if ok then
                    (Returned (Some END)
                       [ascii ''Login berhasil '' @ [0x2705] @ ascii '' Selamat datang, '' @
                        u @ ascii ''!''],
                     ud\<lparr>ud_login_username := None, ud_user_id := Some (u_id r),
                        ud_username := Some u\<rparr>, d')
                  else (Returned (Some END) [login_failed],
                        ud\<lparr>ud_login_username := None\<rparr>, d'))"
proof -
  let ?r = "\<lparr>u_id = next_id (map u_id (users d)), u_username = u, u_password_hash = h,
             u_created_at = isoformat (e_now E)\<rparr>"
  let ?d = "d\<lparr>users := users d @ [?r]\<rparr>"
  have c: "create_user (e_bcrypt E) (e_salt E) (e_now E) d u (strip t) = Inr ?d"
    using assms by (simp add: create_user_def)
  have f: "find_user ?d u = Some ?r" using assms(1) by (simp add: find_user_append)
  have i: "\<forall>x\<in>set (users d). u_id x < u_id ?r" by (simp add: next_id_fresh)
  have v: "verify_user (e_bcrypt E) ?d u (strip t) = checkpw (e_bcrypt E) (strip t) h"
    by (simp add: verify_user_def f)
  have l: "login_password E t (ud\<lparr>ud_login_username := Some u\<rparr>) ?d =
             (case checkpw (e_bcrypt E) (strip t) h of
                Inl e \<Rightarrow> (Raised e, ud\<lparr>ud_login_username := None\<rparr>, ?d)
              | Inr ok \<Rightarrow>
                  if ok then
                    (Returned (Some END)
                       [ascii ''Login berhasil '' @ [0x2705] @ ascii '' Selamat datang, '' @
                        u @ ascii ''!''],
                     ud\<lparr>ud_login_username := None, ud_user_id := Some (u_id ?r),
                        ud_username := Some u\<rparr>, ?d)
                  else (Returned (Some END) [login_failed],
                        ud\<lparr>ud_login_username := None\<rparr>, ?d))"
    by (simp add: login_password_def v f split: sum.splits)
  have "users ?d = users d @ [?r]" "transactions ?d = transactions d"
    "u_username ?r = u" "u_password_hash ?r = h" by simp_all
  with c f i v l show ?thesis by blast
qed

text \<open>
  Over the empty store, with the library that refuses long passwords: \<open>alice\<close>
  registers with \<open>secret1\<close> sent between blanks, \<open>verify_user\<close> returns \<open>True\<close>, and the login step puts
  the id of her row, 1, into the session.
\<close>

theorem register_then_verify_witness:
  "find_user empty_db (ascii ''alice'') = None \<and>
   hashpw (e_bcrypt strict_env) (strip (ascii '' secret1 '')) (e_salt strict_env)
     = Inr (ascii ''secret1'') \<and>
   create_user (e_bcrypt strict_env) (e_salt strict_env) (e_now strict_env) empty_db
     (ascii ''alice'') (strip (ascii '' secret1 '')) = Inr alice_db \<and>
   users alice_db = users empty_db @ [alice_row] \<and>
   verify_user (e_bcrypt strict_env) alice_db (ascii ''alice'') (strip (ascii '' secret1 ''))
     = Inr True \<and>
   login_password strict_env (ascii '' secret1 '')
       (empty_user_data\<lparr>ud_login_username := Some (ascii ''alice'')\<rparr>) alice_db =
     (Returned (Some END)
        [ascii ''Login berhasil '' @ [0x2705] @ ascii '' Selamat datang, alice!''],
      empty_user_data\<lparr>ud_login_username := None, ud_user_id := Some 1,
        ud_username := Some (ascii ''alice'')\<rparr>, alice_db)"
proof -
  have a: "find_user empty_db (ascii ''alice'') = None" by code_simp
  have b: "hashpw (e_bcrypt strict_env) (strip (ascii '' secret1 '')) (e_salt strict_env)
             = Inr (ascii ''secret1'')" by code_simp
  have c: "create_user (e_bcrypt strict_env) (e_salt strict_env) (e_now strict_env) empty_db
             (ascii ''alice'') (strip (ascii '' secret1 '')) = Inr alice_db" by code_simp
  have k: "checkpw (e_bcrypt strict_env) (strip (ascii '' secret1 '')) (ascii ''secret1'')
             = Inr True" by code_simp
  have u: "users alice_db = users empty_db @ [alice_row]" "u_id alice_row = 1" by code_simp+
  from register_then_verify [OF a b, of empty_user_data] obtain d' r
    where 1: "create_user (e_bcrypt strict_env) (e_salt strict_env) (e_now strict_env)
                empty_db (ascii ''alice'') (strip (ascii '' secret1 '')) = Inr d'"
      and 2: "users d' = users empty_db @ [r]"
      and 3: "verify_user (e_bcrypt strict_env) d' (ascii ''alice'')
                (strip (ascii '' secret1 '')) =
              checkpw (e_bcrypt strict_env) (strip (ascii '' secret1 '')) (ascii ''secret1'')"
      and 4: "login_password strict_env (ascii '' secret1 '')
                (empty_user_data\<lparr>ud_login_username := Some (ascii ''alice'')\<rparr>) d' =
             (case checkpw (e_bcrypt strict_env) (strip (ascii '' secret1 ''))
                     (ascii ''secret1'') of
                Inl e \<Rightarrow> (Raised e, empty_user_data\<lparr>ud_login_username := None\<rparr>, d')
              | Inr ok \<Rightarrow>
                  if ok then
                    (Returned (Some END)
                       [ascii ''Login berhasil '' @ [0x2705] @ ascii '' Selamat datang, '' @
                        ascii ''alice'' @ ascii ''!''],
                     empty_user_data\<lparr>ud_login_username := None, ud_user_id := Some (u_id r),
                        ud_username := Some (ascii ''alice'')\<rparr>, d')
                  else (Returned (Some END) [login_failed],
                        empty_user_data\<lparr>ud_login_username := None\<rparr>, d'))"
    by blast
  from 1 c have d: "d' = alice_db" by simp
  from 2 u(1) d have r: "r = alice_row" by simp
  from 3 k d have v: "verify_user (e_bcrypt strict_env) alice_db (ascii ''alice'')
                        (strip (ascii '' secret1 '')) = Inr True" by simp
  from 4 have l: "login_password strict_env (ascii '' secret1 '')
       (empty_user_data\<lparr>ud_login_username := Some (ascii ''alice'')\<rparr>) alice_db =
     (Returned (Some END)
        [ascii ''Login berhasil '' @ [0x2705] @ ascii '' Selamat datang, alice!''],
      empty_user_data\<lparr>ud_login_username := None, ud_user_id := Some 1,
        ud_username := Some (ascii ''alice'')\<rparr>, alice_db)"
    unfolding k d r u(2) by simp
  from a b c u(1) v l show ?thesis by (simp only: simp_thms)
qed

text \<open>
  The claim as it stands fails in three ways.  With a library that refuses a password
  of more than 72 bytes, the name \<open>bobby\<close> (free, five characters) and a password of 73
  letters are not registered: \<open>create_user\<close> raises and \<open>verify_user\<close> then returns
  \<open>False\<close>.  What \<open>verify_user\<close> returns is not an identity: for alice and for bobby,
  whose ids are 1 and 2, it returns the same value \<open>True\<close>.  And a name that is
  taken is not registered again, whatever the lengths.
\<close>

theorem register_then_verify_counterexample:
  "3 \<le> length (ascii ''bobby'') \<and> 6 \<le> length long_password \<and>
   find_user alice_db (ascii ''bobby'') = None \<and>
   create_user strict_bcrypt [] noon alice_db (ascii ''bobby'') long_password
     = Inl ValueError \<and>
   verify_user strict_bcrypt alice_db (ascii ''bobby'') long_password = Inr False \<and>
   create_user strict_bcrypt [] noon alice_db (ascii ''bobby'') (ascii ''hunter22'')
     = Inr two_users_db \<and>
   verify_user strict_bcrypt two_users_db (ascii ''alice'') (ascii ''secret1'') = Inr True \<and>
   verify_user strict_bcrypt two_users_db (ascii ''bobby'') (ascii ''hunter22'') = Inr True \<and>
   map u_id (users two_users_db) = [1, 2] \<and>
   create_user strict_bcrypt [] noon alice_db (ascii ''alice'') (ascii ''other12'')
     = Inl IntegrityError"
  by code_simp

subsection \<open>Dialogues of one session\<close>

lemmas conv_defs = reg_conv_def login_conv_def in_conv_def out_conv_def
lemmas filter_defs = CommandHandler_def text_not_command_def regex_exact_def

lemma reg_step:
  "conv_check_update reg_conv st u = Some cb \<Longrightarrow> state_ok RegConv st \<Longrightarrow>
   state_ok RegConv (update_state (fst (cb E t ud d)) st)"
  by (auto simp: conv_check_update_def first_match_def reg_conv_def filter_defs state_ok_def
      conv_states_def update_state_def Let_def state_defs
      register_cmd_def reg_username_def reg_password_def cancel_def
      split: option.splits if_splits update.splits sum.splits)

lemma login_step:
  "conv_check_update login_conv st u = Some cb \<Longrightarrow> state_ok LoginConv st \<Longrightarrow>
   state_ok LoginConv (update_state (fst (cb E t ud d)) st)"
  by (auto simp: conv_check_update_def first_match_def login_conv_def filter_defs state_ok_def
      conv_states_def update_state_def Let_def state_defs
      login_cmd_def login_username_def login_password_def cancel_def
      split: option.splits if_splits update.splits sum.splits)

lemma in_step:
  "conv_check_update in_conv st u = Some cb \<Longrightarrow> state_ok InConv st \<Longrightarrow>
   state_ok InConv (update_state (fst (cb E t ud d)) st)"
  by (auto simp: conv_check_update_def first_match_def in_conv_def filter_defs state_ok_def
      conv_states_def update_state_def Let_def state_defs
      in_start_def in_amount_def in_note_def cancel_def
      split: option.splits if_splits update.splits sum.splits)

lemma out_step:
  "conv_check_update out_conv st u = Some cb \<Longrightarrow> state_ok OutConv st \<Longrightarrow>
   state_ok OutConv (update_state (fst (cb E t ud d)) st)"
  by (auto simp: conv_check_update_def first_match_def out_conv_def filter_defs state_ok_def
      conv_states_def update_state_def Let_def state_defs
      out_start_def out_amount_def out_note_def cancel_def
      split: option.splits if_splits update.splits sum.splits)

lemma handlers_keep_states: "list_all keeps_states handlers"
  by (simp add: handlers_def keeps_states_def reg_step login_step in_step out_step)

lemma process_states_ok:
  assumes "list_all keeps_states hs" and "\<forall>n. state_ok n (w_conv w n)"
  shows "state_ok m (w_conv (snd (process hs E u w)) m)"
  using assms
proof (induction hs E u w rule: process.induct)
  case (1 E u w)
  then show ?case by simp
next
  case (2 h hs E u w)
  then show ?case
    by (cases "fst h u") (auto simp: run_callback_def split: prod.splits)
next
  case (3 n C hs E u w)
  show ?case
  proof (cases "conv_check_update C (w_conv w n) u")
    case None
    with 3 show ?thesis by simp
  next
    case (Some cb)
    obtain out ud d where r: "cb E (message_text u) (w_user_data w) (w_db w) = (out, ud, d)"
      by (cases "cb E (message_text u) (w_user_data w) (w_db w)") auto
    from 3(2) have "keeps_states (Conv n C)" by simp
    with Some 3(3)
    have "state_ok n (update_state (fst (cb E (message_text u) (w_user_data w) (w_db w)))
            (w_conv w n))"
      unfolding keeps_states_def by simp
    with r Some 3(3) show ?thesis
      by (simp add: run_callback_def)
  qed
qed

lemma reachable_state_ok: "reachable w \<Longrightarrow> state_ok n (w_conv w n)"
proof (induction arbitrary: n rule: reachable.induct)
  case (start d)
  then show ?case by (simp add: state_ok_def initial_def)
next
  case (step w E u)
  then show ?case
    by (simp add: process_update_def process_states_ok handlers_keep_states)
qed

lemma process_frame:
  "\<exists>n. \<forall>m. m \<noteq> n \<longrightarrow> w_conv (snd (process hs E u w)) m = w_conv w m"
proof (induction hs E u w rule: process.induct)
  case (1 E u w)
  then show ?case by simp
next
  case (2 h hs E u w)
  then show ?case
    by (cases "fst h u") (auto simp: run_callback_def split: prod.splits)
next
  case (3 n C hs E u w)
  then show ?case
    by (cases "conv_check_update C (w_conv w n) u")
       (auto simp: run_callback_def split: prod.splits)
qed

lemma reachable_run: "reachable w \<Longrightarrow> reachable (run evs w)"
proof (induction evs arbitrary: w)
  case Nil
  then show ?case by simp
next
  case (Cons ev evs)
  then show ?case by (cases ev) (simp add: reachable.step)
qed

text \<open>
  C2, as amended.  The bot has no single dialogue state: each of the four
  conversation handlers keeps a state of its own.  In every reachable state each
  dialogue is either inactive or in exactly one of the two states of its own table,
  and one update changes the state of at most one dialogue.  So a dialogue that
  starts while another is active leaves the other's state as it is: nothing is
  overwritten, and both are active afterwards.
\<close>

theorem dialogue_states_independent:
  assumes "reachable w"
  shows "(\<forall>n s. w_conv w n = Some s \<longrightarrow> s \<in> conv_states n) \<and>
         (\<exists>n. \<forall>m. m \<noteq> n \<longrightarrow> w_conv (snd (process_update E u w)) m = w_conv w m)"
proof
  show "\<forall>n s. w_conv w n = Some s \<longrightarrow> s \<in> conv_states n"
  proof (intro allI impI)
    fix n s
    assume "w_conv w n = Some s"
    with reachable_state_ok [OF assms, of n] show "s \<in> conv_states n"
      by (simp add: state_ok_def)
  qed
  show "\<exists>n. \<forall>m. m \<noteq> n \<longrightarrow> w_conv (snd (process_update E u w)) m = w_conv w m"
    unfolding process_update_def by (rule process_frame)
qed

theorem dialogue_states_independent_witness:
  "reachable (run [(test_env, Command ''login'')] (initial empty_db)) \<and>
   w_conv (run [(test_env, Command ''login'')] (initial empty_db)) LoginConv
     = Some LOGIN_USERNAME \<and>
   LOGIN_USERNAME \<in> conv_states LoginConv \<and>
   (\<exists>n. \<forall>m. m \<noteq> n \<longrightarrow>
      w_conv (snd (process_update test_env (Command ''register'')
                    (run [(test_env, Command ''login'')] (initial empty_db)))) m =
      w_conv (run [(test_env, Command ''login'')] (initial empty_db)) m)"
proof -
  have r: "reachable (run [(test_env, Command ''login'')] (initial empty_db))"
    by (rule reachable_run) (rule reachable.start)
  have s: "w_conv (run [(test_env, Command ''login'')] (initial empty_db)) LoginConv
             = Some LOGIN_USERNAME"
    by code_simp
  from dialogue_states_independent [OF r, of test_env "Command ''register''"] r s
  show ?thesis by blast
qed

text \<open>
  The claim as it stands fails: after \<open>/login\<close> and then \<open>/register\<close> the login
  dialogue is still waiting for a username while the registration dialogue waits
  for one too.
\<close>

theorem two_dialogues_active_counterexample:
  "w_conv (run [(test_env, Command ''login'')] (initial empty_db)) LoginConv
     = Some LOGIN_USERNAME \<and>
   w_conv (run [(test_env, Command ''login''), (test_env, Command ''register'')]
            (initial empty_db)) LoginConv = Some LOGIN_USERNAME \<and>
   w_conv (run [(test_env, Command ''login''), (test_env, Command ''register'')]
            (initial empty_db)) RegConv = Some REG_USERNAME"
  by code_simp

subsection \<open>Cancel\<close>

lemma conv_cancel:
  "C \<in> {reg_conv, login_conv, in_conv, out_conv} \<Longrightarrow>
   conv_check_update C (Some s) (Command ''cancel'') = Some (\<lambda>E text. cancel)"
  by (auto simp: conv_check_update_def first_match_def conv_defs filter_defs)

lemma conv_cancel_inactive:
  "C \<in> {reg_conv, login_conv, in_conv, out_conv} \<Longrightarrow>
   conv_check_update C None (Command ''cancel'') = None"
  by (auto simp: conv_check_update_def first_match_def conv_defs filter_defs)

lemma cancel_dispatch:
  assumes "first_active w = Some n"
  shows "process_update E (Command ''cancel'') w =
     (Some (Returned (Some END) [ascii ''Dibatalkan.'']),
      w\<lparr>w_user_data := (w_user_data w)\<lparr>ud_tmp_amount := None, ud_reg_username := None,
            ud_login_username := None\<rparr>,
        w_conv := (w_conv w)(n := None)\<rparr>)"
  using assms
  apply (simp add: process_update_def handlers_def first_active_def conv_order_def)
  apply (simp add: CommandHandler_def[of "''start''"])
  apply (cases "w_conv w RegConv"; cases "w_conv w LoginConv"; cases "w_conv w InConv";
      cases "w_conv w OutConv")
                 apply (auto simp: conv_cancel conv_cancel_inactive run_callback_def cancel_def
      update_state_def)
  done

text \<open>
  C8, as amended.  In any state with an active dialogue, \<open>/cancel\<close> is handled by the
  first active conversation handler in the order of registration.  The callback
  clears the three scratch fields of \<open>user_data\<close> (whichever dialogue they belong
  to), leaves \<open>user_id\<close> and \<open>username\<close> and the database as they are, and ends that
  one dialogue; the other dialogues keep their states.  When it was the only active
  dialogue, no dialogue is active afterwards.
\<close>

theorem cancel_ends_first_active_dialogue:
  assumes "first_active w = Some n"
    and "process_update E (Command ''cancel'') w = (out, w')"
  shows "out = Some (Returned (Some END) [ascii ''Dibatalkan.'']) \<and>
         ud_tmp_amount (w_user_data w') = None \<and>
         ud_reg_username (w_user_data w') = None \<and>
         ud_login_username (w_user_data w') = None \<and>
         ud_user_id (w_user_data w') = ud_user_id (w_user_data w) \<and>
         ud_username (w_user_data w') = ud_username (w_user_data w) \<and>
         w_db w' = w_db w \<and>
         w_conv w' = (w_conv w)(n := None) \<and>
         active w' = active w - {n} \<and>
         (active w = {n} \<longrightarrow> active w' = {})"
  using assms(2) unfolding cancel_dispatch [OF assms(1)]
  by (auto simp: active_def split: if_splits)

theorem cancel_ends_first_active_dialogue_witness:
  "first_active (run [(test_env, Command ''login'')] (initial empty_db)) = Some LoginConv \<and>
   active (snd (process_update test_env (Command ''cancel'')
     (run [(test_env, Command ''login'')] (initial empty_db)))) =
   active (run [(test_env, Command ''login'')] (initial empty_db)) - {LoginConv}"
proof -
  have a: "first_active (run [(test_env, Command ''login'')] (initial empty_db))
             = Some LoginConv"
    by code_simp
  from cancel_ends_first_active_dialogue [OF a, of test_env] a show ?thesis
    by (metis prod.collapse)
qed

text \<open>
  The claim as it stands fails when two dialogues are active: after \<open>/login\<close>,
  \<open>/register\<close> and \<open>/cancel\<close> the login dialogue is still waiting for a username.
\<close>

theorem cancel_leaves_dialogue_counterexample:
  "w_conv (run [(test_env, Command ''login''), (test_env, Command ''register''),
                (test_env, Command ''cancel'')] (initial empty_db)) LoginConv
     = Some LOGIN_USERNAME \<and>
   w_conv (run [(test_env, Command ''login''), (test_env, Command ''register''),
                (test_env, Command ''cancel'')] (initial empty_db)) RegConv = None"
  by code_simp

subsection \<open>Currency format\<close>

lemma zpad3: "zpad 3 n = [48 + n div 100 mod 10, 48 + n div 10 mod 10, 48 + n mod 10]"
proof -
  have "n div 10 div 10 = n div 100" by (simp add: div_mult2_eq)
  then show ?thesis by (simp add: numeral_3_eq_3)
qed

lemma dec_digits_step: "10 \<le> n \<Longrightarrow> dec_digits n = dec_digits (n div 10) @ [48 + n mod 10]"
  by (subst dec_digits.simps) simp

lemma mod1000_units: "(n::nat) mod 1000 mod 10 = n mod 10"
  by (simp add: mod_mod_cancel)

lemma mod1000_hundreds: "(n::nat) mod 1000 div 100 mod 10 = n div 100 mod 10"
proof -
  have "n mod (100 * 10) = 100 * (n div 100 mod 10) + n mod 100"
    by (rule mod_mult2_eq)
  then have "n mod 1000 div 100 = n div 100 mod 10" by simp
  then show ?thesis by simp
qed

lemma mod1000_tens: "(n::nat) mod 1000 div 10 mod 10 = n div 10 mod 10"
proof -
  have "n mod (10 * 100) = 10 * (n div 10 mod 100) + n mod 10"
    by (rule mod_mult2_eq)
  then have "n mod 1000 div 10 = n div 10 mod 100" by simp
  then show ?thesis by (simp add: mod_mod_cancel)
qed

lemma dec_digits_split:
  assumes "1000 \<le> n"
  shows "dec_digits n = dec_digits (n div 1000) @ zpad 3 (n mod 1000)"
proof -
  have e1: "n div 10 div 10 = n div 100" by (simp add: div_mult2_eq)
  have e2: "n div 100 div 10 = n div 1000" by (simp add: div_mult2_eq)
  have g: "10 \<le> n" "10 \<le> n div 10" "10 \<le> n div 100" using assms by linarith+
  have a: "dec_digits n = dec_digits (n div 10) @ [48 + n mod 10]"
    using g(1) by (rule dec_digits_step)
  have b: "dec_digits (n div 10) = dec_digits (n div 100) @ [48 + n div 10 mod 10]"
    using dec_digits_step [OF g(2)] by (simp only: e1)
  have c: "dec_digits (n div 100) = dec_digits (n div 1000) @ [48 + n div 100 mod 10]"
    using dec_digits_step [OF g(3)] by (simp only: e2)
  show ?thesis
    by (simp only: a b c zpad3 mod1000_units mod1000_tens mod1000_hundreds append_assoc
        append.simps)
qed

lemma dec_digits_nonempty: "dec_digits n \<noteq> []"
  by (subst dec_digits.simps) simp

lemma dec_digits_short: "n < 1000 \<Longrightarrow> length (dec_digits n) \<le> 3"
proof -
  assume n: "n < 1000"
  have l1: "length (dec_digits k) = 1" if "k < 10" for k
    using that by (subst dec_digits.simps) simp
  have l2: "length (dec_digits k) \<le> 2" if "k < 100" for k
  proof (cases "k < 10")
    case True
    then show ?thesis by (simp add: l1)
  next
    case False
    then have "dec_digits k = dec_digits (k div 10) @ [48 + k mod 10]"
      by (simp add: dec_digits_step)
    moreover have "k div 10 < 10" using that by linarith
    ultimately show ?thesis by (simp add: l1)
  qed
  show ?thesis
  proof (cases "n < 10")
    case True
    then show ?thesis by (simp add: l1)
  next
    case False
    then have "dec_digits n = dec_digits (n div 10) @ [48 + n mod 10]"
      by (simp add: dec_digits_step)
    moreover have "n div 10 < 100" using n by linarith
    ultimately show ?thesis using l2 [of "n div 10"] by simp
  qed
qed

lemma group3_short: "length xs \<le> 3 \<Longrightarrow> group3 xs = xs"
  by (cases xs rule: group3.cases) auto

lemma group3_snoc3:
  "xs \<noteq> [] \<Longrightarrow> rev (group3 (rev (xs @ [a, b, c]))) = rev (group3 (rev xs)) @ [44, a, b, c]"
  by (cases "rev xs") auto

lemma dec_digits_digits: "c \<in> set (dec_digits n) \<Longrightarrow> 48 \<le> c \<and> c \<le> 57"
proof (induction n arbitrary: c rule: dec_digits.induct)
  case (1 n)
  show ?case
  proof (cases "n < 10")
    case True
    with 1(2) show ?thesis by (subst (asm) dec_digits.simps) simp
  next
    case False
    then have "dec_digits n = dec_digits (n div 10) @ [48 + n mod 10]"
      by (simp add: dec_digits_step)
    with 1(2) have "c \<in> set (dec_digits (n div 10)) \<or> c = 48 + n mod 10"
      by auto
    moreover have "n mod 10 < 10" by simp
    ultimately show ?thesis using 1(1) [OF False] by fastforce
  qed
qed

lemma replace_digits:
  "(\<And>c. c \<in> set xs \<Longrightarrow> 48 \<le> c \<and> c \<le> 57) \<Longrightarrow> replace_char 44 46 xs = xs"
proof (induction xs)
  case Nil
  then show ?case by (simp add: replace_char_def)
next
  case (Cons a xs)
  from Cons(2) [of a] have "a \<noteq> 44" by auto
  moreover have "replace_char 44 46 xs = xs" using Cons by auto
  ultimately show ?case by (simp add: replace_char_def)
qed

lemma grouped_format:
  "replace_char 44 46 (rev (group3 (rev (dec_digits n)))) = thousands n"
proof (induction n rule: thousands.induct)
  case (1 n)
  show ?case
  proof (cases "n < 1000")
    case True
    then have "group3 (rev (dec_digits n)) = rev (dec_digits n)"
      by (simp add: group3_short dec_digits_short)
    moreover have "thousands n = dec_digits n"
      using True by (subst thousands.simps) simp
    moreover have "replace_char 44 46 (dec_digits n) = dec_digits n"
      by (rule replace_digits) (rule dec_digits_digits)
    ultimately show ?thesis by simp
  next
    case False
    then have n: "1000 \<le> n" by simp
    have "rev (group3 (rev (dec_digits n))) =
            rev (group3 (rev (dec_digits (n div 1000)))) @
            [44, 48 + n div 100 mod 10, 48 + n div 10 mod 10, 48 + n mod 10]"
      unfolding dec_digits_split [OF n] zpad3 mod1000_units mod1000_tens mod1000_hundreds
      by (rule group3_snoc3) (rule dec_digits_nonempty)
    moreover have "thousands n = thousands (n div 1000) @ [46] @ zpad 3 (n mod 1000)"
      using False by (subst thousands.simps) simp
    moreover note 1 [OF False]
    ultimately show ?thesis
      by (simp add: replace_char_def zpad3 mod1000_units mod1000_tens mod1000_hundreds)
  qed
qed

lemma rupiah_nonneg: "rupiah (int n) = ascii ''Rp.'' @ thousands n"
  by (simp add: rupiah_def format_comma_def grouped_format)

lemma rupiah_amount: "0 \<le> a \<Longrightarrow> rupiah a = ascii ''Rp.'' @ thousands (nat a)"
  using rupiah_nonneg [of "nat a"] by simp

lemma rupiah_0: "rupiah 0 = ascii ''Rp.0''"
  by code_simp

lemma rupiah_50000: "rupiah 50000 = ascii ''Rp.50.000''"
  by code_simp

subsection \<open>The note step\<close>

lemma IN_neq_OUT: "IN \<noteq> OUT"
  by (simp add: IN_def OUT_def)

lemma int64_0: "int64 0"
  by (simp add: int64_def)

lemma add_tx_ok:
  "0 \<le> amount \<Longrightarrow> int64 amount \<Longrightarrow> k = IN \<or> k = OUT \<Longrightarrow>
   add_tx now d uid k amount note =
     Inr (d\<lparr>transactions := transactions d @
        [\<lparr>t_id = next_id (map t_id (transactions d)), t_user_id = uid, t_type = k,
          t_amount = amount, t_note = note, t_ts = isoformat now\<rparr>]\<rparr>)"
  unfolding add_tx_def by (simp add: not_less)

lemma strip_trim:
  assumes "blank pre" and "blank post" and "trimmed core"
  shows "strip (pre @ core @ post) = core"
proof (cases "core = []")
  case True
  from assms have "\<forall>x\<in>set (pre @ post). isspace x" by (auto simp: blank_def list_all_iff)
  then have e: "dropWhile isspace (pre @ post) = []" by (simp only: dropWhile_eq_Nil_conv)
  show ?thesis unfolding True strip_def append_Nil e by simp
next
  case False
  with assms(3) have h: "\<not> isspace (hd core)" and l: "\<not> isspace (last core)"
    by (simp_all add: trimmed_def)
  from assms(1) have "dropWhile isspace (pre @ core @ post) = dropWhile isspace (core @ post)"
    by (simp add: blank_def list_all_iff dropWhile_append)
  also from False h have "\<dots> = core @ post" by (cases core) simp_all
  finally have a: "dropWhile isspace (pre @ core @ post) = core @ post" .
  from assms(2) have "dropWhile isspace (rev post @ rev core) = dropWhile isspace (rev core)"
    by (simp add: blank_def list_all_iff dropWhile_append)
  also from False l have "\<dots> = rev core" by (cases "rev core") (simp_all add: last_rev hd_rev)
  finally show ?thesis by (simp add: strip_def a)
qed

lemma strip_decomposes:
  "\<exists>pre post. t = pre @ strip t @ post \<and> blank pre \<and> blank post \<and> trimmed (strip t)"
proof -
  let ?a = "takeWhile isspace t" and ?r = "dropWhile isspace t"
  let ?b = "rev (takeWhile isspace (rev ?r))"
  have 1: "t = ?a @ ?r" by simp
  have 2: "?r = strip t @ ?b"
  proof -
    have "rev (takeWhile isspace (rev ?r) @ dropWhile isspace (rev ?r)) = ?r"
      by (simp only: takeWhile_dropWhile_id rev_rev_ident)
    then have "rev (dropWhile isspace (rev ?r)) @ ?b = ?r" by (simp only: rev_append)
    then show ?thesis by (simp only: strip_def)
  qed
  have 3: "blank ?a" "blank ?b"
    by (auto simp: blank_def list_all_iff dest: set_takeWhileD)
  have 4: "trimmed (strip t)"
  proof (cases "strip t = []")
    case True
    then show ?thesis by (simp add: trimmed_def)
  next
    case False
    then have ne: "dropWhile isspace (rev ?r) \<noteq> []" by (simp add: strip_def)
    then have "\<not> isspace (hd (dropWhile isspace (rev ?r)))" by (rule hd_dropWhile)
    then have l: "\<not> isspace (last (strip t))" using ne by (simp add: strip_def last_rev)
    from False have ne2: "?r \<noteq> []"
      unfolding strip_def by (metis dropWhile.simps(1) rev.simps(1))
    then have "\<not> isspace (hd ?r)" by (rule hd_dropWhile)
    moreover from 2 False have "hd ?r = hd (strip t)" by (metis hd_append2)
    ultimately show ?thesis using l by (simp add: trimmed_def)
  qed
  from 1 2 have "t = ?a @ strip t @ ?b" by simp
  with 3 4 show ?thesis by blast
qed

lemma int64_nat: "n < 2 ^ 63 \<Longrightarrow> int64 (int n)"
proof -
  assume "n < 2 ^ 63"
  then have "int n < int (2 ^ 63)" by (simp only: of_nat_less_iff)
  then have u: "int n < 2 ^ 63" by simp
  have "- (2 ^ 63) \<le> (0::int)" by simp
  also have "0 \<le> int n" by simp
  finally have "- (2 ^ 63) \<le> int n" .
  with u show ?thesis unfolding int64_def by (rule conjI [rotated])
qed

lemma in_note_records:
  assumes "blank pre" and "blank post" and "trimmed core"
    and "ud_user_id ud = Some uid" and "scratch_amount ud = int n" and "n < 2 ^ 63"
  shows "in_note E (pre @ core @ post) ud d =
           (Returned (Some END)
              [[0x2705] @ ascii '' Uang masuk tercatat: '' @ ascii ''Rp.'' @ thousands n],
            ud\<lparr>ud_tmp_amount := None\<rparr>,
            d\<lparr>transactions := transactions d @
               [\<lparr>t_id = next_id (map t_id (transactions d)), t_user_id = uid, t_type = IN,
                 t_amount = int n,
                 t_note = (if core = ascii ''-'' then None else Some core),
                 t_ts = isoformat (e_now E)\<rparr>]\<rparr>)"
proof -
  have s: "strip (pre @ core @ post) = core" using assms(1-3) by (rule strip_trim)
  have a: "(case ud_tmp_amount ud of None \<Rightarrow> 0 | Some a \<Rightarrow> a) = int n"
    using assms(5) by (simp add: scratch_amount_def)
  have t: "add_tx (e_now E) d uid IN (int n) nt =
     Inr (d\<lparr>transactions := transactions d @
        [\<lparr>t_id = next_id (map t_id (transactions d)), t_user_id = uid, t_type = IN,
          t_amount = int n, t_note = nt, t_ts = isoformat (e_now E)\<rparr>]\<rparr>)" for nt
    by (rule add_tx_ok) (simp_all add: int64_nat [OF assms(6)])
  show ?thesis
    unfolding in_note_def s a Let_def by (simp add: assms(4) t rupiah_nonneg)
qed

lemma out_note_records:
  assumes "blank pre" and "blank post" and "trimmed core"
    and "ud_user_id ud = Some uid" and "scratch_amount ud = int n" and "n < 2 ^ 63"
  shows "out_note E (pre @ core @ post) ud d =
           (Returned (Some END)
              [[0x2705] @ ascii '' Uang keluar tercatat: '' @ ascii ''Rp.'' @ thousands n],
            ud\<lparr>ud_tmp_amount := None\<rparr>,
            d\<lparr>transactions := transactions d @
               [\<lparr>t_id = next_id (map t_id (transactions d)), t_user_id = uid, t_type = OUT,
                 t_amount = int n,
                 t_note = (if core = ascii ''-'' then None else Some core),
                 t_ts = isoformat (e_now E)\<rparr>]\<rparr>)"
proof -
  have s: "strip (pre @ core @ post) = core" using assms(1-3) by (rule strip_trim)
  have a: "(case ud_tmp_amount ud of None \<Rightarrow> 0 | Some a \<Rightarrow> a) = int n"
    using assms(5) by (simp add: scratch_amount_def)
  have t: "add_tx (e_now E) d uid OUT (int n) nt =
     Inr (d\<lparr>transactions := transactions d @
        [\<lparr>t_id = next_id (map t_id (transactions d)), t_user_id = uid, t_type = OUT,
          t_amount = int n, t_note = nt, t_ts = isoformat (e_now E)\<rparr>]\<rparr>)" for nt
    by (rule add_tx_ok) (simp_all add: int64_nat [OF assms(6)])
  show ?thesis
    unfolding out_note_def s a Let_def by (simp add: assms(4) t rupiah_nonneg)
qed

text \<open>
  C9, as amended.  Write the input of the note step as white space, then a text that
  neither starts nor ends with white space, then white space; every input has exactly
  one such form, and the text in the middle is what \<open>strip\<close> returns.  When the session
  holds a user id and the scratch amount is a number \<open>n\<close> below \<open>2 ^ 63\<close> (an absent
  amount counts as 0), the note step of the income and of the expense dialogue adds one
  row whose note is absent if the text in the middle is \<open>-\<close> and is that text
  otherwise, with the amount \<open>n\<close>, ends the dialogue, and confirms with the amount
  written as \<open>Rp.\<close> followed by its digits in groups of three separated by full
  stops.  The function \<open>rupiah\<close> writes every non-negative amount in that format;
  50000 is written \<open>Rp.50.000\<close>.
\<close>

theorem note_step_and_currency_format:
  assumes "blank pre" and "blank post" and "trimmed core"
    and "ud_user_id ud = Some uid" and "scratch_amount ud = int n" and "n < 2 ^ 63"
  shows "in_note E (pre @ core @ post) ud d =
           (Returned (Some END)
              [[0x2705] @ ascii '' Uang masuk tercatat: '' @ ascii ''Rp.'' @ thousands n],
            ud\<lparr>ud_tmp_amount := None\<rparr>,
            d\<lparr>transactions := transactions d @
               [\<lparr>t_id = next_id (map t_id (transactions d)), t_user_id = uid, t_type = IN,
                 t_amount = int n,
                 t_note = (if core = ascii ''-'' then None else Some core),
                 t_ts = isoformat (e_now E)\<rparr>]\<rparr>) \<and>
         out_note E (pre @ core @ post) ud d =
           (Returned (Some END)
              [[0x2705] @ ascii '' Uang keluar tercatat: '' @ ascii ''Rp.'' @ thousands n],
            ud\<lparr>ud_tmp_amount := None\<rparr>,
            d\<lparr>transactions := transactions d @
               [\<lparr>t_id = next_id (map t_id (transactions d)), t_user_id = uid, t_type = OUT,
                 t_amount = int n,
                 t_note = (if core = ascii ''-'' then None else Some core),
                 t_ts = isoformat (e_now E)\<rparr>]\<rparr>) \<and>
         strip (pre @ core @ post) = core \<and>
         (\<exists>pre' post'. t = pre' @ strip t @ post' \<and> blank pre' \<and> blank post' \<and>
            trimmed (strip t)) \<and>
         rupiah (int n) = ascii ''Rp.'' @ thousands n \<and>
         rupiah 50000 = ascii ''Rp.50.000''"
  using in_note_records [OF assms] out_note_records [OF assms] strip_trim [OF assms(1-3)]
    strip_decomposes [of t] rupiah_nonneg [of n] rupiah_50000
  by (simp only: simp_thms)

text \<open>
  Alice, logged in, has entered 50000.  The note \<open>-\<close> sent with a blank before it and
  a blank and a line feed after it is stored as absent; the note \<open>makan siang\<close> sent
  with blanks around it is stored without them.
\<close>

theorem note_step_and_currency_format_witness:
  "blank [32] \<and> blank [32, 10] \<and> trimmed (ascii ''-'') \<and> trimmed (ascii ''makan siang'') \<and>
   ud_user_id alice_session = Some 1 \<and> scratch_amount alice_session = int 50000 \<and>
   (50000 :: nat) < 2 ^ 63 \<and>
   in_note test_env (ascii '' - '' @ [10]) alice_session alice_db =
     (Returned (Some END) [[0x2705] @ ascii '' Uang masuk tercatat: Rp.50.000''],
      alice_session\<lparr>ud_tmp_amount := None\<rparr>,
      alice_db\<lparr>transactions :=
        [\<lparr>t_id = 1, t_user_id = 1, t_type = IN, t_amount = 50000, t_note = None,
          t_ts = ascii ''2024-12-31T12:00:00+08:00''\<rparr>]\<rparr>) \<and>
   out_note test_env (ascii ''  makan siang '') alice_session alice_db =
     (Returned (Some END) [[0x2705] @ ascii '' Uang keluar tercatat: Rp.50.000''],
      alice_session\<lparr>ud_tmp_amount := None\<rparr>,
      alice_db\<lparr>transactions :=
        [\<lparr>t_id = 1, t_user_id = 1, t_type = OUT, t_amount = 50000,
          t_note = Some (ascii ''makan siang''),
          t_ts = ascii ''2024-12-31T12:00:00+08:00''\<rparr>]\<rparr>)"
proof -
  have b: "blank [32]" "blank [32, 10]" "blank [32, 32]" by code_simp+
  have c: "trimmed (ascii ''-'')" "trimmed (ascii ''makan siang'')" by code_simp+
  have u: "ud_user_id alice_session = Some 1" by code_simp
  have a: "scratch_amount alice_session = int 50000" by code_simp
  have n: "(50000 :: nat) < 2 ^ 63" by simp
  have th: "thousands 50000 = ascii ''50.000''" using rupiah_nonneg [of 50000] rupiah_50000
    by simp
  have db: "next_id [] = 1" "transactions alice_db = []"
    "isoformat (e_now test_env) = ascii ''2024-12-31T12:00:00+08:00''"
    by code_simp+
  from note_step_and_currency_format [OF b(1) b(2) c(1) u a n,
      where E = test_env and d = alice_db and t = "[]"]
  have 1: "in_note test_env (ascii '' - '' @ [10]) alice_session alice_db =
     (Returned (Some END) [[0x2705] @ ascii '' Uang masuk tercatat: Rp.50.000''],
      alice_session\<lparr>ud_tmp_amount := None\<rparr>,
      alice_db\<lparr>transactions :=
        [\<lparr>t_id = 1, t_user_id = 1, t_type = IN, t_amount = 50000, t_note = None,
          t_ts = ascii ''2024-12-31T12:00:00+08:00''\<rparr>]\<rparr>)"
    by (simp add: th db)
  from note_step_and_currency_format [OF b(3) b(1) c(2) u a n,
      where E = test_env and d = alice_db and t = "[]"]
  have 2: "out_note test_env (ascii ''  makan siang '') alice_session alice_db =
     (Returned (Some END) [[0x2705] @ ascii '' Uang keluar tercatat: Rp.50.000''],
      alice_session\<lparr>ud_tmp_amount := None\<rparr>,
      alice_db\<lparr>transactions :=
        [\<lparr>t_id = 1, t_user_id = 1, t_type = OUT, t_amount = 50000,
          t_note = Some (ascii ''makan siang''),
          t_ts = ascii ''2024-12-31T12:00:00+08:00''\<rparr>]\<rparr>)"
    by (simp add: th db)
  from b(1,2) c u a n 1 2 show ?thesis by (simp only: simp_thms)
qed

text \<open>
  The claim as it stands fails in a note state that the dialogue reaches.  Alice logs
  in, opens the income dialogue and enters 9223372036854775808, which the amount step
  accepts.  The note \<open>-\<close> is then not stored, neither as absent nor as text: SQLite
  holds integers of 64 bits, the insertion raises \<open>OverflowError\<close>, no row is added and
  the dialogue stays at the note state.  Nor is the note stored in the session that
  has logged out in the middle of the dialogue and holds no user id.
\<close>

theorem note_not_stored_counterexample:
  "w_conv big_amount_at_note InConv = Some IN_NOTE \<and>
   ud_user_id (w_user_data big_amount_at_note) = Some 1 \<and>
   ud_tmp_amount (w_user_data big_amount_at_note) = Some 9223372036854775808 \<and>
   transactions (w_db big_amount_at_note) = [] \<and>
   fst (process_update test_env (Text (ascii ''-'')) big_amount_at_note)
     = Some (Raised OverflowError) \<and>
   transactions (w_db (snd (process_update test_env (Text (ascii ''-'')) big_amount_at_note)))
     = [] \<and>
   w_conv (snd (process_update test_env (Text (ascii ''-'')) big_amount_at_note)) InConv
     = Some IN_NOTE \<and>
   w_conv logged_out_at_note InConv = Some IN_NOTE \<and>
   fst (process_update test_env (Text (ascii ''-'')) logged_out_at_note)
     = Some (Raised KeyError) \<and>
   transactions (w_db (snd (process_update test_env (Text (ascii ''-'')) logged_out_at_note)))
     = []"
  by code_simp

text \<open>
  With a user id in the session the note step does what C10 says: when \<open>tmp_amount\<close>
  is absent it records a transaction of amount 0 for that user, reports it as
  recorded (\<open>Rp.0\<close>) and ends the dialogue.
\<close>

lemma note_without_amount_logged_in:
  assumes "ud_tmp_amount ud = None" and "ud_user_id ud = Some uid"
  shows "in_note E t ud d =
           (Returned (Some END) [[0x2705] @ ascii '' Uang masuk tercatat: Rp.0''], ud,
            d\<lparr>transactions := transactions d @
               [\<lparr>t_id = next_id (map t_id (transactions d)), t_user_id = uid, t_type = IN,
                 t_amount = 0,
                 t_note = (if strip t = ascii ''-'' then None else Some (strip t)),
                 t_ts = isoformat (e_now E)\<rparr>]\<rparr>) \<and>
         out_note E t ud d =
           (Returned (Some END) [[0x2705] @ ascii '' Uang keluar tercatat: Rp.0''], ud,
            d\<lparr>transactions := transactions d @
               [\<lparr>t_id = next_id (map t_id (transactions d)), t_user_id = uid, t_type = OUT,
                 t_amount = 0,
                 t_note = (if strip t = ascii ''-'' then None else Some (strip t)),
                 t_ts = isoformat (e_now E)\<rparr>]\<rparr>)"
proof -
  have "ud\<lparr>ud_tmp_amount := None\<rparr> = ud" using assms(1) by (cases ud) simp
  then show ?thesis
    using assms rupiah_0
    by (simp add: in_note_def out_note_def add_tx_ok int64_0 Let_def)
qed

text \<open>
  C10.  The note step fails where the claim says it does not.  Alice logs in, opens
  the income dialogue, enters an amount and logs out; \<open>/logout\<close> is not handled by the
  dialogue, which stays at the note state.  The session below is that state after a
  first note has removed the scratch amount: the dialogue is at the note state, the
  scratch amount is absent, and there is no user id.  The note step reads
  \<open>user_data["user_id"]\<close> without a test: it raises \<open>KeyError\<close>, sends no reply, records
  nothing and leaves the dialogue at the note state.  The entry step of the same
  dialogue tests \<open>is_logged_in\<close> first and replies that the user is not logged in.
\<close>

theorem note_after_logout_raises:
  "w_conv logged_out_at_note InConv = Some IN_NOTE \<and>
   ud_tmp_amount (w_user_data logged_out_at_note) = None \<and>
   ud_user_id (w_user_data logged_out_at_note) = None \<and>
   w_db logged_out_at_note = alice_db \<and>
   fst (process_update test_env (Text (ascii ''lunch'')) logged_out_at_note)
     = Some (Raised KeyError) \<and>
   w_db (snd (process_update test_env (Text (ascii ''lunch'')) logged_out_at_note))
     = alice_db \<and>
   w_conv (snd (process_update test_env (Text (ascii ''lunch'')) logged_out_at_note)) InConv
     = Some IN_NOTE \<and>
   fst (in_start (w_user_data logged_out_at_note) alice_db)
     = Returned (Some END) [not_logged_in] \<and>
   fst (out_start (w_user_data logged_out_at_note) alice_db)
     = Returned (Some END) [not_logged_in]"
  by code_simp

subsection \<open>The amount step\<close>

lemma decimal_ranges_head: "\<exists>rest. decimal_ranges = (48, 10) # rest"
  by (simp add: decimal_ranges_def)

lemma ascii_digit_decimal:
  assumes "48 \<le> c" and "c \<le> 57"
  shows "isdecimal_char c" and "decimal_value c = c - 48"
proof -
  obtain rest where r: "decimal_ranges = (48, 10) # rest"
    using decimal_ranges_head by blast
  from assms show "isdecimal_char c"
    by (simp add: isdecimal_char_def r in_range_def)
  from assms have "c - 48 < 10" by simp
  with assms show "decimal_value c = c - 48"
    by (simp add: decimal_value_def r in_range_def)
qed

lemma isdecimal_isdigit: "isdecimal s \<Longrightarrow> isdigit s"
  by (auto simp: isdecimal_def isdigit_def isdigit_char_def list_all_iff)

lemma isdecimal_dec_digits: "isdecimal (dec_digits n)"
  using dec_digits_digits [of _ n] dec_digits_nonempty [of n]
  by (auto simp: isdecimal_def list_all_iff ascii_digit_decimal(1))

lemma foldl_dec_digits:
  "foldl (\<lambda>acc c. 10 * acc + int (decimal_value c)) 0 (dec_digits n) = int n"
proof (induction n rule: dec_digits.induct)
  case (1 n)
  show ?case
  proof (cases "n < 10")
    case True
    then have "dec_digits n = [48 + n]" by (subst dec_digits.simps) simp
    moreover have "decimal_value (48 + n) = n"
      using True ascii_digit_decimal(2) [of "48 + n"] by simp
    ultimately show ?thesis by simp
  next
    case False
    then have "dec_digits n = dec_digits (n div 10) @ [48 + n mod 10]"
      by (simp add: dec_digits_step)
    moreover have "decimal_value (48 + n mod 10) = n mod 10"
      using ascii_digit_decimal(2) [of "48 + n mod 10"] by simp
    moreover note 1 [OF False]
    moreover have "10 * int (n div 10) + int (n mod 10) = int n"
      by (metis mult_div_mod_eq of_nat_add of_nat_mult of_nat_numeral)
    ultimately show ?thesis by simp
  qed
qed

lemma int_of_dec_digits: "int_of_digits (dec_digits n) = Inr (int n)"
  by (simp add: int_of_digits_def isdecimal_dec_digits foldl_dec_digits)

lemma amount_50_dot: "in_amount (ascii ''50.000'') ud d =
    (Returned (Some IN_NOTE) [ask_note], ud\<lparr>ud_tmp_amount := Some 50000\<rparr>, d)"
proof -
  have "replace_empty 44 (replace_empty 46 (strip (ascii ''50.000''))) = ascii ''50000''"
    by code_simp
  moreover have "isdigit (ascii ''50000'')" by code_simp
  moreover have "int_of_digits (ascii ''50000'') = Inr 50000" by code_simp
  ultimately show ?thesis by (simp add: in_amount_def)
qed

lemma amount_50_comma: "in_amount (ascii ''50,000'') ud d =
    (Returned (Some IN_NOTE) [ask_note], ud\<lparr>ud_tmp_amount := Some 50000\<rparr>, d)"
proof -
  have "replace_empty 44 (replace_empty 46 (strip (ascii ''50,000''))) = ascii ''50000''"
    by code_simp
  moreover have "isdigit (ascii ''50000'')" by code_simp
  moreover have "int_of_digits (ascii ''50000'') = Inr 50000" by code_simp
  ultimately show ?thesis by (simp add: in_amount_def)
qed

lemma amount_50a00: "in_amount (ascii ''50a00'') ud d =
    (Returned (Some IN_AMOUNT) [amount_must_be_number], ud, d)"
proof -
  have "\<not> isdigit (replace_empty 44 (replace_empty 46 (strip (ascii ''50a00''))))"
    by code_simp
  then show ?thesis by (simp add: in_amount_def)
qed

text \<open>
  C6, as amended.  The amount step first trims the input, then deletes every full
  stop and comma.  If what remains fails \<open>str.isdigit\<close> (in particular if it is
  empty or holds a character that is no digit), the step sends the re-prompt and
  stays in its state, changing nothing.  If what remains is a non-empty string of
  decimal digits, the step stores its decimal value as the scratch amount and moves
  to the note state; the value is the one whose decimal notation the text is
  (\<open>int_of_digits\<close> inverts \<open>dec_digits\<close>).  \<open>50.000\<close> and \<open>50,000\<close> store 50000 and
  \<open>50a00\<close> is re-prompted.  (What happens on a text of digit characters that are not
  decimal digits, such as a superscript two, is not part of this statement.)
\<close>

theorem amount_step:
  "(\<not> isdigit (replace_empty 44 (replace_empty 46 (strip t))) \<longrightarrow>
      in_amount t ud d = (Returned (Some IN_AMOUNT) [amount_must_be_number], ud, d) \<and>
      out_amount t ud d = (Returned (Some OUT_AMOUNT) [amount_must_be_number], ud, d)) \<and>
   (isdecimal (replace_empty 44 (replace_empty 46 (strip t))) \<longrightarrow>
      (\<exists>v. int_of_digits (replace_empty 44 (replace_empty 46 (strip t))) = Inr v \<and>
         in_amount t ud d =
           (Returned (Some IN_NOTE) [ask_note], ud\<lparr>ud_tmp_amount := Some v\<rparr>, d) \<and>
         out_amount t ud d =
           (Returned (Some OUT_NOTE) [ask_note], ud\<lparr>ud_tmp_amount := Some v\<rparr>, d))) \<and>
   isdecimal (dec_digits n) \<and> int_of_digits (dec_digits n) = Inr (int n) \<and>
   in_amount (ascii ''50.000'') ud d =
     (Returned (Some IN_NOTE) [ask_note], ud\<lparr>ud_tmp_amount := Some 50000\<rparr>, d) \<and>
   in_amount (ascii ''50,000'') ud d =
     (Returned (Some IN_NOTE) [ask_note], ud\<lparr>ud_tmp_amount := Some 50000\<rparr>, d) \<and>
   in_amount (ascii ''50a00'') ud d =
     (Returned (Some IN_AMOUNT) [amount_must_be_number], ud, d)"
proof -
  let ?r = "replace_empty 44 (replace_empty 46 (strip t))"
  have a: "\<not> isdigit ?r \<longrightarrow>
      in_amount t ud d = (Returned (Some IN_AMOUNT) [amount_must_be_number], ud, d) \<and>
      out_amount t ud d = (Returned (Some OUT_AMOUNT) [amount_must_be_number], ud, d)"
    by (simp add: in_amount_def out_amount_def)
  have b: "isdecimal ?r \<longrightarrow>
      (\<exists>v. int_of_digits ?r = Inr v \<and>
         in_amount t ud d =
           (Returned (Some IN_NOTE) [ask_note], ud\<lparr>ud_tmp_amount := Some v\<rparr>, d) \<and>
         out_amount t ud d =
           (Returned (Some OUT_NOTE) [ask_note], ud\<lparr>ud_tmp_amount := Some v\<rparr>, d))"
    by (simp add: in_amount_def out_amount_def isdecimal_isdigit int_of_digits_def)
  from a b isdecimal_dec_digits [of n] int_of_dec_digits [of n]
    amount_50_dot [of ud d] amount_50_comma [of ud d] amount_50a00 [of ud d]
  show ?thesis by blast
qed

theorem amount_step_witness:
  "isdecimal (replace_empty 44 (replace_empty 46 (strip (ascii ''1.250.000'')))) \<and>
   in_amount (ascii ''1.250.000'') empty_user_data empty_db =
     (Returned (Some IN_NOTE) [ask_note], empty_user_data\<lparr>ud_tmp_amount := Some 1250000\<rparr>,
      empty_db) \<and>
   \<not> isdigit (replace_empty 44 (replace_empty 46 (strip (ascii ''12 000'')))) \<and>
   in_amount (ascii ''12 000'') empty_user_data empty_db =
     (Returned (Some IN_AMOUNT) [amount_must_be_number], empty_user_data, empty_db)"
proof -
  have a: "isdecimal (replace_empty 44 (replace_empty 46 (strip (ascii ''1.250.000''))))"
    by code_simp
  have v: "int_of_digits (replace_empty 44 (replace_empty 46 (strip (ascii ''1.250.000''))))
             = Inr 1250000"
    by code_simp
  have b: "\<not> isdigit (replace_empty 44 (replace_empty 46 (strip (ascii ''12 000''))))"
    by code_simp
  from amount_step [of "ascii ''1.250.000''" empty_user_data empty_db 0] a v
  have "in_amount (ascii ''1.250.000'') empty_user_data empty_db =
     (Returned (Some IN_NOTE) [ask_note], empty_user_data\<lparr>ud_tmp_amount := Some 1250000\<rparr>,
      empty_db)"
    by auto
  moreover from amount_step [of "ascii ''12 000''" empty_user_data empty_db 0] b
  have "in_amount (ascii ''12 000'') empty_user_data empty_db =
     (Returned (Some IN_AMOUNT) [amount_must_be_number], empty_user_data, empty_db)"
    by blast
  ultimately show ?thesis using a b by blast
qed

text \<open>
  The claim as it stands fails on an input with surrounding white space: deleting
  full stops and commas from \<open>" 50"\<close> leaves a text that is not all digits, yet the
  step accepts it, because it trims first.
\<close>

theorem amount_step_counterexample:
  "\<not> isdecimal (replace_empty 44 (replace_empty 46 (ascii '' 50''))) \<and>
   in_amount (ascii '' 50'') empty_user_data empty_db =
     (Returned (Some IN_NOTE) [ask_note], empty_user_data\<lparr>ud_tmp_amount := Some 50\<rparr>,
      empty_db)"
  by code_simp

text \<open>
  A text of digit characters without decimal value passes \<open>isdigit\<close> and makes
  \<open>int\<close> raise: the step neither re-prompts nor advances.
\<close>

lemma amount_superscript_raises:
  "isdigit [0xB2] \<and> \<not> isdecimal [0xB2] \<and>
   in_amount [0xB2] empty_user_data empty_db = (Raised ValueError, empty_user_data, empty_db) \<and>
   out_amount [0xB2] empty_user_data empty_db = (Raised ValueError, empty_user_data, empty_db)"
  by code_simp

subsection \<open>Registration\<close>

lemma process_None: "process hs E u w = (None, w') \<Longrightarrow> w' = w"
proof (induction hs E u w rule: process.induct)
  case (1 E u w)
  then show ?case by simp
next
  case (2 h hs E u w)
  then show ?case by (cases "fst h u") (auto split: prod.splits)
next
  case (3 n C hs E u w)
  then show ?case
    by (cases "conv_check_update C (w_conv w n) u") (auto split: prod.splits)
qed

lemma find_Some_in: "find P xs = Some x \<Longrightarrow> x \<in> set xs"
  by (induction xs) (auto split: if_splits)

lemma first_match_in: "first_match hs u = Some cb \<Longrightarrow> cb \<in> snd ` set hs"
  by (auto simp: first_match_def dest!: find_Some_in intro: rev_image_eqI)

lemma conv_check_update_in:
  "conv_check_update C st u = Some cb \<Longrightarrow> cb \<in> handler_callbacks (Conv n C)"
  by (auto simp: conv_check_update_def handler_callbacks_def
      split: option.splits dest!: first_match_in)

lemma process_Some:
  "process hs E u w = (Some out, w') \<Longrightarrow>
   \<exists>h\<in>set hs. \<exists>cb\<in>handler_callbacks h.
     cb E (message_text u) (w_user_data w) (w_db w) = (out, w_user_data w', w_db w')"
proof (induction hs E u w rule: process.induct)
  case (1 E u w)
  then show ?case by simp
next
  case (2 h hs E u w)
  show ?case
  proof (cases "fst h u")
    case True
    with 2(2) have "snd h E (message_text u) (w_user_data w) (w_db w)
        = (out, w_user_data w', w_db w')"
      by (auto simp: run_callback_def split: prod.splits)
    then show ?thesis by (auto simp: handler_callbacks_def)
  next
    case False
    with 2 show ?thesis by auto
  qed
next
  case (3 n C hs E u w)
  show ?case
  proof (cases "conv_check_update C (w_conv w n) u")
    case None
    with 3 show ?thesis by auto
  next
    case (Some cb)
    with 3(2) have "cb E (message_text u) (w_user_data w) (w_db w)
        = (out, w_user_data w', w_db w')"
      by (auto simp: run_callback_def split: prod.splits)
    with conv_check_update_in [OF Some, of n] show ?thesis by auto
  qed
qed

lemma handlers_callbacks: "h \<in> set handlers \<Longrightarrow> cb \<in> handler_callbacks h \<Longrightarrow> cb \<in> callbacks"
  by (auto simp: handlers_def handler_callbacks_def callbacks_def conv_defs CommandHandler_def
      split: if_splits)

lemma process_update_callback:
  assumes "process_update E u w = (Some out, w')"
  shows "\<exists>cb\<in>callbacks.
           cb E (message_text u) (w_user_data w) (w_db w) = (out, w_user_data w', w_db w')"
  using process_Some [OF assms [unfolded process_update_def]] handlers_callbacks by blast

lemma report_in_today_frame: "snd (report_in_today E ud d) = (ud, d)"
  by (simp add: report_in_today_def split: sum.splits option.splits prod.splits)

lemma report_out_week_frame: "snd (report_out_week E ud d) = (ud, d)"
  by (simp add: report_out_week_def split: sum.splits option.splits prod.splits)

lemma report_month_frame: "snd (report_month E ud d) = (ud, d)"
  by (simp add: report_month_def Let_def split: sum.splits option.splits prod.splits)

lemma menu_router_db: "menu_router E t ud d = (out, ud', d') \<Longrightarrow>
    d' = d \<and> ud_reg_username ud' = ud_reg_username ud"
  using report_in_today_frame [of E ud d] report_out_week_frame [of E ud d]
    report_month_frame [of E ud d]
  by (auto simp: menu_router_def Let_def logout_cmd_def split: if_splits)

lemma callbacks_users:
  assumes "cb \<in> callbacks" and "cb E t ud d = (out, ud', d')" and "users d' \<noteq> users d"
  shows "6 \<le> length (strip t) \<and>
         (\<exists>name. ud_reg_username ud = Some name \<and>
            create_user (e_bcrypt E) (e_salt E) (e_now E) d name (strip t) = Inr d')"
  using assms
  by (auto simp: callbacks_def start_def register_cmd_def reg_username_def reg_password_def
      login_cmd_def login_username_def login_password_def in_start_def in_amount_def
      in_note_def out_start_def out_amount_def out_note_def logout_cmd_def cancel_def
      Let_def add_tx_def
      dest: menu_router_db split: if_splits option.splits sum.splits)

lemma callbacks_scratch:
  assumes "cb \<in> callbacks" and "cb E t ud d = (out, ud', d')" and "reg_scratch_ok ud"
  shows "reg_scratch_ok ud'"
  using assms
  by (auto simp: callbacks_def start_def register_cmd_def reg_username_def reg_password_def
      login_cmd_def login_username_def login_password_def in_start_def in_amount_def
      in_note_def out_start_def out_amount_def out_note_def logout_cmd_def cancel_def
      Let_def reg_scratch_ok_def
      dest: menu_router_db split: if_splits option.splits sum.splits)

lemma reachable_scratch: "reachable w \<Longrightarrow> reg_scratch_ok (w_user_data w)"
proof (induction rule: reachable.induct)
  case (start d)
  then show ?case by (simp add: initial_def empty_user_data_def reg_scratch_ok_def)
next
  case (step w E u)
  obtain out w' where p: "process_update E u w = (out, w')"
    by (cases "process_update E u w") auto
  show ?case
  proof (cases out)
    case None
    with p have "w' = w" by (simp add: process_update_def process_None)
    with p step show ?thesis by simp
  next
    case (Some o1)
    with p process_update_callback [of E u w o1 w'] step callbacks_scratch
    show ?thesis by fastforce
  qed
qed

lemma create_user_Inr:
  "create_user B salt now d name p = Inr d' \<Longrightarrow>
   find_user d name = None \<and> (\<exists>r. users d' = users d @ [r] \<and> u_username r = name)"
  by (auto simp: create_user_def split: sum.splits if_splits)

lemma length_strip_le: "length (strip s) \<le> length s"
proof -
  have "length (dropWhile isspace (rev (dropWhile isspace s))) \<le> length (dropWhile isspace s)"
    using length_dropWhile_le [of isspace "rev (dropWhile isspace s)"] by simp
  also have "\<dots> \<le> length s" by (rule length_dropWhile_le)
  finally show ?thesis by (simp add: strip_def)
qed

lemma create_user_taken_error:
  "find_user d name \<noteq> None \<Longrightarrow>
   create_user B salt now d name p =
     Inl (case hashpw B p salt of Inl e \<Rightarrow> e | Inr h \<Rightarrow> IntegrityError)"
  by (cases "hashpw B p salt") (auto simp: create_user_def)

lemma create_user_Inr_hash:
  "create_user B salt now d name p = Inr d' \<Longrightarrow>
   \<exists>r. users d' = users d @ [r] \<and> u_username r = name \<and>
       hashpw B p salt = Inr (u_password_hash r)"
  by (auto simp: create_user_def split: sum.splits if_splits)

lemma registering_step:
  assumes "reachable w" and "process_update E u w = (out, w')"
    and "users (w_db w') \<noteq> users (w_db w)"
  shows "\<exists>name r. ud_reg_username (w_user_data w) = Some name \<and> 3 \<le> length name \<and>
           find_user (w_db w) name = None \<and> 6 \<le> length (strip (message_text u)) \<and>
           users (w_db w') = users (w_db w) @ [r] \<and> u_username r = name \<and>
           hashpw (e_bcrypt E) (strip (message_text u)) (e_salt E) = Inr (u_password_hash r)"
proof (cases out)
  case None
  with assms(2) have "w' = w" by (simp add: process_update_def process_None)
  with assms(3) show ?thesis by simp
next
  case (Some o1)
  with assms(2) obtain cb where cb: "cb \<in> callbacks"
    and r: "cb E (message_text u) (w_user_data w) (w_db w) = (o1, w_user_data w', w_db w')"
    using process_update_callback by blast
  from callbacks_users [OF cb r assms(3)] obtain name
    where l: "6 \<le> length (strip (message_text u))"
      and n: "ud_reg_username (w_user_data w) = Some name"
      and c: "create_user (e_bcrypt E) (e_salt E) (e_now E) (w_db w) name
                (strip (message_text u)) = Inr (w_db w')"
    by blast
  from reachable_scratch [OF assms(1)] n have "3 \<le> length name"
    by (simp add: reg_scratch_ok_def)
  with l n create_user_Inr [OF c] create_user_Inr_hash [OF c] show ?thesis by auto
qed

text \<open>
  C5.  Registration is the two steps of the dialogue followed by \<open>create_user\<close>, and
  each of the three conditions makes it fail with a reply of its own, storing
  nothing.  A username that is taken: the username step rejects it (``Username sudah
  dipakai''), staying in its state with the session and the store as they were, and
  \<open>create_user\<close> on a taken name returns an error and never a store,
  \<open>IntegrityError\<close> from the \<open>UNIQUE\<close> constraint unless the library has raised
  before.  A username of fewer than three characters, counted before or after
  trimming: the username step rejects it (``Username minimal 3 karakter'').  A
  password of fewer than six characters, counted before or after trimming: the
  password step rejects it (``Password minimal 6 karakter'').  A user is created only
  when all three conditions are avoided: whenever an update of a reachable session
  changes the table of users, it adds exactly one row, its username is the one kept
  from the username step, has at least three characters and was not in the store,
  and the password, the trimmed text of the update, has at least six characters and
  was hashed by the library into the stored hash.
\<close>

theorem registration_checks:
  "(find_user d name \<noteq> None \<longrightarrow>
      create_user B salt now d name p =
        Inl (case hashpw B p salt of Inl e \<Rightarrow> e | Inr h \<Rightarrow> IntegrityError)) \<and>
   (3 \<le> length (strip t) \<and> find_user d (strip t) \<noteq> None \<longrightarrow>
      reg_username t ud d =
        (Returned (Some REG_USERNAME) [ascii ''Username sudah dipakai. Coba username lain:''],
         ud, d)) \<and>
   (length t < 3 \<or> length (strip t) < 3 \<longrightarrow>
      reg_username t ud d =
        (Returned (Some REG_USERNAME) [ascii ''Username minimal 3 karakter. Coba lagi:''],
         ud, d)) \<and>
   (length t < 6 \<or> length (strip t) < 6 \<longrightarrow>
      reg_password E t ud d =
        (Returned (Some REG_PASSWORD) [ascii ''Password minimal 6 karakter. Coba lagi:''],
         ud, d)) \<and>
   (reachable w \<and> process_update E u w = (out, w') \<and> users (w_db w') \<noteq> users (w_db w) \<longrightarrow>
      (\<exists>name r. ud_reg_username (w_user_data w) = Some name \<and> 3 \<le> length name \<and>
         find_user (w_db w) name = None \<and> 6 \<le> length (strip (message_text u)) \<and>
         users (w_db w') = users (w_db w) @ [r] \<and> u_username r = name \<and>
         hashpw (e_bcrypt E) (strip (message_text u)) (e_salt E) = Inr (u_password_hash r)))"
proof -
  have a: "length t < 3 \<or> length (strip t) < 3 \<longrightarrow>
      reg_username t ud d =
        (Returned (Some REG_USERNAME) [ascii ''Username minimal 3 karakter. Coba lagi:''],
         ud, d)"
    using length_strip_le [of t] by (auto simp: reg_username_def)
  have b: "3 \<le> length (strip t) \<and> find_user d (strip t) \<noteq> None \<longrightarrow>
      reg_username t ud d =
        (Returned (Some REG_USERNAME) [ascii ''Username sudah dipakai. Coba username lain:''],
         ud, d)"
    by (auto simp: reg_username_def)
  have c: "length t < 6 \<or> length (strip t) < 6 \<longrightarrow>
      reg_password E t ud d =
        (Returned (Some REG_PASSWORD) [ascii ''Password minimal 6 karakter. Coba lagi:''],
         ud, d)"
    using length_strip_le [of t] by (auto simp: reg_password_def)
  from a b c create_user_taken_error [of d name B salt now p]
    registering_step [of w E u out w']
  show ?thesis by blast
qed

text \<open>
  In the empty store \<open>ab\<close> sent with blanks around it is rejected as too short, and so
  is the password \<open>12345\<close>; in the store that holds alice the name \<open>alice\<close> is rejected
  as taken and \<open>create_user\<close> fails on it; and the session that has registered the name
  \<open>alice\<close> and sends \<open>secret1\<close> adds her row.
\<close>

theorem registration_checks_witness:
  "length (strip (ascii '' ab '')) < 3 \<and>
   reg_username (ascii '' ab '') empty_user_data empty_db =
     (Returned (Some REG_USERNAME) [ascii ''Username minimal 3 karakter. Coba lagi:''],
      empty_user_data, empty_db) \<and>
   length (ascii ''12345'') < 6 \<and>
   reg_password test_env (ascii ''12345'') empty_user_data empty_db =
     (Returned (Some REG_PASSWORD) [ascii ''Password minimal 6 karakter. Coba lagi:''],
      empty_user_data, empty_db) \<and>
   3 \<le> length (strip (ascii ''alice'')) \<and>
   find_user alice_db (strip (ascii ''alice'')) = Some alice_row \<and>
   reg_username (ascii ''alice'') empty_user_data alice_db =
     (Returned (Some REG_USERNAME) [ascii ''Username sudah dipakai. Coba username lain:''],
      empty_user_data, alice_db) \<and>
   create_user plain_bcrypt [] noon alice_db (ascii ''alice'') (ascii ''other12'')
     = Inl IntegrityError \<and>
   reachable (run [(test_env, Command ''register''), (test_env, Text (ascii ''alice''))]
                (initial empty_db)) \<and>
   (\<exists>name r.
      ud_reg_username (w_user_data
        (run [(test_env, Command ''register''), (test_env, Text (ascii ''alice''))]
           (initial empty_db))) = Some name \<and> 3 \<le> length name \<and>
      6 \<le> length (strip (message_text (Text (ascii ''secret1'')))) \<and>
      users (w_db (snd (process_update test_env (Text (ascii ''secret1''))
        (run [(test_env, Command ''register''), (test_env, Text (ascii ''alice''))]
           (initial empty_db))))) =
      users (w_db (run [(test_env, Command ''register''), (test_env, Text (ascii ''alice''))]
           (initial empty_db))) @ [r] \<and> u_username r = name)"
proof -
  let ?w = "run [(test_env, Command ''register''), (test_env, Text (ascii ''alice''))]
              (initial empty_db)"
  have l: "length (strip (ascii '' ab '')) < 3" by code_simp
  have m: "length (ascii ''12345'') < 6" by simp
  have g: "3 \<le> length (strip (ascii ''alice''))" by code_simp
  have f: "find_user alice_db (strip (ascii ''alice'')) = Some alice_row"
    "find_user alice_db (ascii ''alice'') = Some alice_row" by code_simp+
  have h: "hashpw plain_bcrypt (ascii ''other12'') [] = Inr (ascii ''other12'')"
    by code_simp
  have r: "reachable ?w" by (rule reachable_run) (rule reachable.start)
  have ch: "users (w_db (snd (process_update test_env (Text (ascii ''secret1'')) ?w)))
              \<noteq> users (w_db ?w)"
    by code_simp
  note inst1 = registration_checks [where t = "ascii '' ab ''" and ud = empty_user_data
      and d = empty_db and w = ?w and E = test_env and u = "Text (ascii ''secret1'')"
      and out = "fst (process_update test_env (Text (ascii ''secret1'')) ?w)"
      and w' = "snd (process_update test_env (Text (ascii ''secret1'')) ?w)"]
  note inst2 = registration_checks [where t = "ascii ''alice''" and ud = empty_user_data
      and d = alice_db and name = "ascii ''alice''"
      and B = plain_bcrypt and salt = "[]" and now = noon and p = "ascii ''other12''"]
  note inst3 = registration_checks [where t = "ascii ''12345''" and ud = empty_user_data
      and d = empty_db and E = test_env]
  from inst1 l have 1: "reg_username (ascii '' ab '') empty_user_data empty_db =
     (Returned (Some REG_USERNAME) [ascii ''Username minimal 3 karakter. Coba lagi:''],
      empty_user_data, empty_db)"
    by blast
  from inst3 m have 2: "reg_password test_env (ascii ''12345'') empty_user_data empty_db =
     (Returned (Some REG_PASSWORD) [ascii ''Password minimal 6 karakter. Coba lagi:''],
      empty_user_data, empty_db)"
    by blast
  from inst2 g f(1) have 3: "reg_username (ascii ''alice'') empty_user_data alice_db =
     (Returned (Some REG_USERNAME) [ascii ''Username sudah dipakai. Coba username lain:''],
      empty_user_data, alice_db)"
    by simp
  from inst2 f(2) have "create_user plain_bcrypt [] noon alice_db (ascii ''alice'')
      (ascii ''other12'') =
        Inl (case hashpw plain_bcrypt (ascii ''other12'') [] of Inl e \<Rightarrow> e
             | Inr h \<Rightarrow> IntegrityError)"
    by simp
  then have 4: "create_user plain_bcrypt [] noon alice_db (ascii ''alice'') (ascii ''other12'')
     = Inl IntegrityError"
    unfolding h by simp
  from inst1 r ch
  have 5: "\<exists>name r.
      ud_reg_username (w_user_data ?w) = Some name \<and> 3 \<le> length name \<and>
      6 \<le> length (strip (message_text (Text (ascii ''secret1'')))) \<and>
      users (w_db (snd (process_update test_env (Text (ascii ''secret1'')) ?w))) =
      users (w_db ?w) @ [r] \<and> u_username r = name"
    by (simp only: prod.collapse) blast
  from l 1 m 2 g f(1) 3 4 r 5 show ?thesis by (simp only: simp_thms)
qed

subsection \<open>Sums over a range\<close>

lemma int64_nonneg: "0 \<le> a \<Longrightarrow> int64 a \<longleftrightarrow> a < 2 ^ 63"
  by (simp add: int64_def)

lemma sql_sum_from_nonneg:
  assumes "list_all (\<lambda>x. 0 \<le> x) xs" and "0 \<le> acc" and "acc < 2 ^ 63"
  shows "sql_sum_from acc xs =
           (if acc + sum_list xs < 2 ^ 63 then Inr (acc + sum_list xs)
            else Inl OperationalError)"
  using assms
proof (induction xs arbitrary: acc)
  case Nil
  then show ?case by simp
next
  case (Cons x xs)
  then have x: "0 \<le> x" and xs: "list_all (\<lambda>x. 0 \<le> x) xs" by simp_all
  have s: "0 \<le> sum_list xs" using xs by (induction xs) auto
  show ?case
  proof (cases "acc + x < 2 ^ 63")
    case True
    with Cons(3) x have "int64 (acc + x)" by (simp add: int64_nonneg)
    moreover have "0 \<le> acc + x" using Cons(3) x by simp
    ultimately show ?thesis using Cons(1) [OF xs, of "acc + x"] True by (simp add: add.assoc)
  next
    case False
    with Cons(3) x have "\<not> int64 (acc + x)" by (simp add: int64_nonneg)
    moreover from False s have "\<not> acc + (x + sum_list xs) < 2 ^ 63" by linarith
    ultimately show ?thesis by simp
  qed
qed

lemma sum_tx_total:
  assumes "amounts_ok d"
  shows "sum_tx d uid k s e =
     (if selected_total d uid k s e < 2 ^ 63 then Inr (selected_total d uid k s e)
      else Inl OperationalError)"
proof -
  let ?rows = "filter (tx_selected uid k s e) (transactions d)"
  have f: "filter (tx_selected uid k s e) (transactions d) =
           filter (\<lambda>r. t_user_id r = uid \<and> t_type r = k \<and> s \<le> t_ts r \<and> t_ts r < e)
             (transactions d)"
    by (rule filter_cong) (simp_all add: tx_selected_def)
  have t: "selected_total d uid k s e = sum_list (map t_amount ?rows)"
    by (simp add: selected_total_def f)
  have ok: "list_all (\<lambda>x. 0 \<le> x) (map t_amount ?rows)"
    using assms by (auto simp: amounts_ok_def list_all_iff)
  show ?thesis
  proof (cases "?rows = []")
    case True
    then show ?thesis by (simp add: sum_tx_def sql_sum_def coalesce_def t)
  next
    case False
    with sql_sum_from_nonneg [OF ok, of 0] show ?thesis
      by (simp add: sum_tx_def sql_sum_def coalesce_def t)
  qed
qed

lemma add_tx_amounts_ok: "amounts_ok d \<Longrightarrow> add_tx now d uid k a nt = Inr d' \<Longrightarrow> amounts_ok d'"
  by (auto simp: add_tx_def amounts_ok_def split: if_splits)

text \<open>
  C3, as amended.  On a table that satisfies its \<open>CHECK(amount >= 0)\<close> constraint
  (every table that \<open>add_tx\<close> builds does), \<open>sum_tx\<close> returns the sum of the amounts
  of exactly the transactions of the given owner and kind whose timestamp text
  satisfies \<open>start <= ts < end\<close>, provided that sum is below \<open>2 ^ 63\<close>, and it fails
  with ``integer overflow'' otherwise.  When no transaction matches, the result is
  the integer 0.
\<close>

theorem sum_tx_sums_selected:
  assumes "amounts_ok d"
  shows "sum_tx d uid k s e =
           (if selected_total d uid k s e < 2 ^ 63 then Inr (selected_total d uid k s e)
            else Inl OperationalError) \<and>
         selected_total d uid k s e =
           sum_list (map t_amount
             (filter (\<lambda>r. t_user_id r = uid \<and> t_type r = k \<and> s \<le> t_ts r \<and> t_ts r < e)
                (transactions d))) \<and>
         (filter (\<lambda>r. t_user_id r = uid \<and> t_type r = k \<and> s \<le> t_ts r \<and> t_ts r < e)
            (transactions d) = [] \<longrightarrow> sum_tx d uid k s e = Inr 0) \<and>
         (add_tx now d uid' k' a nt = Inr d' \<longrightarrow> amounts_ok d')"
  using sum_tx_total [OF assms, of uid k s e] add_tx_amounts_ok [OF assms, of now uid' k' a nt d']
  by (auto simp: selected_total_def)

theorem sum_tx_sums_selected_witness:
  "amounts_ok ledger_db \<and>
   selected_total ledger_db 1 IN (ascii ''2024-12-31T00:00:00+08:00'')
     (ascii ''2025-01-01T00:00:00+08:00'') = 50300 \<and>
   sum_tx ledger_db 1 IN (ascii ''2024-12-31T00:00:00+08:00'')
     (ascii ''2025-01-01T00:00:00+08:00'') = Inr 50300 \<and>
   sum_tx ledger_db 3 IN (ascii ''2024-12-31T00:00:00+08:00'')
     (ascii ''2025-01-01T00:00:00+08:00'') = Inr 0"
proof -
  have a: "amounts_ok ledger_db" by code_simp
  have t: "selected_total ledger_db 1 IN (ascii ''2024-12-31T00:00:00+08:00'')
     (ascii ''2025-01-01T00:00:00+08:00'') = 50300"
    by code_simp
  have z: "selected_total ledger_db 3 IN (ascii ''2024-12-31T00:00:00+08:00'')
     (ascii ''2025-01-01T00:00:00+08:00'') = 0"
    by code_simp
  from sum_tx_sums_selected [OF a, of 1 IN "ascii ''2024-12-31T00:00:00+08:00''"
      "ascii ''2025-01-01T00:00:00+08:00''"] t
  have "sum_tx ledger_db 1 IN (ascii ''2024-12-31T00:00:00+08:00'')
     (ascii ''2025-01-01T00:00:00+08:00'') = Inr 50300"
    by simp
  moreover from sum_tx_sums_selected [OF a, of 3 IN "ascii ''2024-12-31T00:00:00+08:00''"
      "ascii ''2025-01-01T00:00:00+08:00''"] z
  have "sum_tx ledger_db 3 IN (ascii ''2024-12-31T00:00:00+08:00'')
     (ascii ''2025-01-01T00:00:00+08:00'') = Inr 0"
    by simp
  ultimately show ?thesis using a t by blast
qed

text \<open>
  The claim as it stands fails when the sum leaves the 64-bit range: two entries
  that \<open>add_tx\<close> accepts sum to \<open>2 ^ 63\<close>, and \<open>sum_tx\<close> fails instead of returning
  the sum.
\<close>

theorem sum_tx_overflow_counterexample:
  "add_tx noon \<lparr>users = [alice_row], transactions = []\<rparr> 1 IN 9223372036854775807 None
     = Inr big_db1 \<and>
   add_tx noon big_db1 1 IN 1 None = Inr big_db2 \<and>
   selected_total big_db2 1 IN (ascii ''2024-12-31T00:00:00+08:00'')
     (ascii ''2025-01-01T00:00:00+08:00'') = 9223372036854775808 \<and>
   sum_tx big_db2 1 IN (ascii ''2024-12-31T00:00:00+08:00'')
     (ascii ''2025-01-01T00:00:00+08:00'') = Inl OperationalError"
  by code_simp

subsection \<open>ISO texts are ordered like the instants they denote\<close>

lemma length_zpad [simp]: "length (zpad k n) = k"
  by (induction k arbitrary: n) auto

lemma append_less_same_length:
  "length a = length b \<Longrightarrow> (a @ x < b @ y \<longleftrightarrow> a < b \<or> (a = b \<and> x < y))"
  for a b x y :: "nat list"
  by (induction a b rule: list_induct2) auto

lemma append_eq_same_length:
  "length a = length b \<Longrightarrow> (a @ x = b @ y \<longleftrightarrow> a = b \<and> x = y)"
  by simp

lemma less_same_length_irrefl: "length a = length b \<Longrightarrow> a < b \<Longrightarrow> a \<noteq> b"
  for a b :: "nat list"
  by auto

lemma div_mod_less_iff:
  "(n::nat) < m \<longleftrightarrow> n div 10 < m div 10 \<or> (n div 10 = m div 10 \<and> n mod 10 < m mod 10)"
proof -
  have n: "n = 10 * (n div 10) + n mod 10" and m: "m = 10 * (m div 10) + m mod 10"
    by simp_all
  have "n mod 10 < 10" "m mod 10 < 10" by simp_all
  then show ?thesis using n m by linarith
qed

lemma div_mod_eq_iff:
  "(n::nat) = m \<longleftrightarrow> n div 10 = m div 10 \<and> n mod 10 = m mod 10"
  by (metis div_mult_mod_eq)

lemma zpad_eq_iff: "n < 10 ^ k \<Longrightarrow> m < 10 ^ k \<Longrightarrow> (zpad k n = zpad k m \<longleftrightarrow> n = m)"
proof (induction k arbitrary: n m)
  case 0
  then show ?case by simp
next
  case (Suc k)
  from Suc(2,3) have "n div 10 < 10 ^ k" "m div 10 < 10 ^ k"
    by (simp_all add: less_mult_imp_div_less mult.commute)
  with Suc(1) have "zpad k (n div 10) = zpad k (m div 10) \<longleftrightarrow> n div 10 = m div 10"
    by blast
  then show ?case using div_mod_eq_iff [of n m] by simp
qed

lemma zpad_less_iff: "n < 10 ^ k \<Longrightarrow> m < 10 ^ k \<Longrightarrow> (zpad k n < zpad k m \<longleftrightarrow> n < m)"
proof (induction k arbitrary: n m)
  case 0
  then show ?case by simp
next
  case (Suc k)
  from Suc(2,3) have b: "n div 10 < 10 ^ k" "m div 10 < 10 ^ k"
    by (simp_all add: less_mult_imp_div_less mult.commute)
  have "zpad (Suc k) n < zpad (Suc k) m \<longleftrightarrow>
          zpad k (n div 10) < zpad k (m div 10) \<or>
          (zpad k (n div 10) = zpad k (m div 10) \<and> n mod 10 < m mod 10)"
    by (simp add: append_less_same_length)
  also have "\<dots> \<longleftrightarrow> n div 10 < m div 10 \<or> (n div 10 = m div 10 \<and> n mod 10 < m mod 10)"
    using Suc(1) [OF b] zpad_eq_iff [OF b] by simp
  also have "\<dots> \<longleftrightarrow> n < m" using div_mod_less_iff [of n m] by simp
  finally show ?case .
qed

lemma field_less:
  assumes "n < 10 ^ k" and "m < 10 ^ k"
  shows "zpad k n @ x < zpad k m @ y \<longleftrightarrow> n < m \<or> (n = m \<and> x < y)"
  using zpad_less_iff [OF assms] zpad_eq_iff [OF assms]
  by (simp add: append_less_same_length)

lemma field_eq:
  assumes "n < 10 ^ k" and "m < 10 ^ k"
  shows "zpad k n @ x = zpad k m @ y \<longleftrightarrow> n = m \<and> x = y"
  using zpad_eq_iff [OF assms] by simp

lemma fraction_less:
  assumes "ua < 10 ^ 6" and "ub < 10 ^ 6"
  shows "(if ua = 0 then [] else 46 # zpad 6 ua) @ ascii ''+08:00''
           < (if ub = 0 then [] else 46 # zpad 6 ub) @ ascii ''+08:00'' \<longleftrightarrow> ua < ub"
proof -
  have "zpad 6 ua @ ascii ''+08:00'' < zpad 6 ub @ ascii ''+08:00'' \<longleftrightarrow> ua < ub"
    using field_less [OF assms, of "ascii ''+08:00''" "ascii ''+08:00''"] by simp
  then show ?thesis by auto
qed

lemma fraction_eq:
  assumes "ua < 10 ^ 6" and "ub < 10 ^ 6"
  shows "(if ua = 0 then [] else 46 # zpad 6 ua) @ ascii ''+08:00''
           = (if ub = 0 then [] else 46 # zpad 6 ub) @ ascii ''+08:00'' \<longleftrightarrow> ua = ub"
proof -
  have "zpad 6 ua @ ascii ''+08:00'' = zpad 6 ub @ ascii ''+08:00'' \<longleftrightarrow> ua = ub"
    using field_eq [OF assms, of "ascii ''+08:00''" "ascii ''+08:00''"] by simp
  then show ?thesis by auto
qed

lemma valid_datetime_bounds:
  assumes "valid_datetime d"
  shows "year d < 10 ^ 4" "month d < 10 ^ 2" "day d < 10 ^ 2" "hour d < 10 ^ 2"
    "minute d < 10 ^ 2" "second d < 10 ^ 2" "microsecond d < 10 ^ 6"
  using assms by (auto simp: valid_datetime_def days_in_month_def split: if_splits)

lemma isoformat_parts:
  "isoformat d =
     zpad 4 (year d) @ 45 # zpad 2 (month d) @ 45 # zpad 2 (day d) @ 84 # zpad 2 (hour d) @
     58 # zpad 2 (minute d) @ 58 # zpad 2 (second d) @
     (if microsecond d = 0 then [] else 46 # zpad 6 (microsecond d)) @ ascii ''+08:00''"
  by (simp add: isoformat_def)

lemma isoformat_less:
  assumes "valid_datetime a" and "valid_datetime b"
  shows "isoformat a < isoformat b \<longleftrightarrow> dt_key a < dt_key b"
  unfolding isoformat_parts dt_key_def
  by (simp only: field_less field_eq fraction_less fraction_eq
      valid_datetime_bounds [OF assms(1)] valid_datetime_bounds [OF assms(2)]
      Cons_less_Cons list.inject not_less_Nil simp_thms less_irrefl)

lemma isoformat_eq:
  assumes "valid_datetime a" and "valid_datetime b"
  shows "isoformat a = isoformat b \<longleftrightarrow> dt_key a = dt_key b"
  unfolding isoformat_parts dt_key_def
  by (simp only: field_less field_eq fraction_less fraction_eq
      valid_datetime_bounds [OF assms(1)] valid_datetime_bounds [OF assms(2)]
      list.inject simp_thms)

lemma isoformat_le:
  assumes "valid_datetime a" and "valid_datetime b"
  shows "isoformat a \<le> isoformat b \<longleftrightarrow> dt_key a \<le> dt_key b"
  using isoformat_less [OF assms] isoformat_eq [OF assms] by (auto simp: le_less)

subsection \<open>Calendar steps\<close>

lemma days_in_month_bounds: "28 \<le> days_in_month y m" "days_in_month y m \<le> 31"
  by (simp_all add: days_in_month_def)

lemma valid_date_next_day: "valid_date d \<Longrightarrow> valid_date (next_day d)"
  using days_in_month_bounds(1) [of "year d" "month d + 1"]
    days_in_month_bounds(1) [of "year d + 1" 1]
  by (auto simp: valid_date_def next_day_def)

lemma valid_date_prev_day:
  "valid_date d \<Longrightarrow> \<not> (year d = 1 \<and> month d = 1 \<and> day d = 1) \<Longrightarrow> valid_date (prev_day d)"
  using days_in_month_bounds(1) [of "year d" "month d - 1"]
  by (auto simp: valid_date_def prev_day_def days_in_month_def [of _ 12])

lemma prev_next_day: "valid_date d \<Longrightarrow> prev_day (next_day d) = d"
  using days_in_month_bounds(1) [of "year d" "month d"]
  by (auto simp: valid_date_def next_day_def prev_day_def days_in_month_def [of _ 12])

lemma next_prev_day:
  "valid_date d \<Longrightarrow> \<not> (year d = 1 \<and> month d = 1 \<and> day d = 1) \<Longrightarrow> next_day (prev_day d) = d"
  using days_in_month_bounds(1) [of "year d" "month d - 1"]
  by (auto simp: valid_date_def next_day_def prev_day_def days_in_month_def [of _ 12])

lemma days_before_month_Suc:
  "1 \<le> m \<Longrightarrow> days_before_month y (Suc m) = days_before_month y m + days_in_month y m"
  by (simp add: days_before_month_def)

lemma days_before_month_1: "days_before_month y (Suc 0) = 0"
  by (simp add: days_before_month_def)

lemma months_of_year: "[Suc 0..<13] = [1, 2, 3, 4, 5, 6, 7, 8, 9, 10, 11, 12]"
  by code_simp

lemma days_before_month_12:
  "days_before_month y 12 + 31 = (if is_leap y then 366 else 365)"
proof -
  have "days_before_month y 13 = days_before_month y 12 + days_in_month y 12"
    using days_before_month_Suc [of 12 y] by simp
  moreover have "days_before_month y 13 = (if is_leap y then 366 else 365)"
    by (simp add: days_before_month_def months_of_year days_in_month_def)
  moreover have "days_in_month y 12 = 31" by (simp add: days_in_month_def)
  ultimately show ?thesis by simp
qed

lemma div_Suc_if: "Suc k div n = k div n + (if Suc k mod n = 0 then 1 else 0)"
  by (simp add: div_Suc)

lemma days_before_year_Suc:
  assumes "1 \<le> y"
  shows "days_before_year (Suc y) = days_before_year y + (if is_leap y then 366 else 365)"
proof -
  obtain k where y: "y = Suc k" using assms by (cases y) auto
  define a b c where "a = k div 4" and "b = k div 100" and "c = k div 400"
  define p4 p100 p400 where "p4 \<longleftrightarrow> Suc k mod 4 = 0" and "p100 \<longleftrightarrow> Suc k mod 100 = 0"
    and "p400 \<longleftrightarrow> Suc k mod 400 = 0"
  have le: "b \<le> a" unfolding a_def b_def by (rule div_le_mono2) simp_all
  have d1: "(4::nat) dvd 100" and d2: "(100::nat) dvd 400" by simp_all
  have m1: "p100 \<Longrightarrow> p4"
    unfolding p4_def p100_def using dvd_trans [OF d1, of "Suc k"]
    by (simp add: mod_eq_0_iff_dvd)
  have m2: "p400 \<Longrightarrow> p100"
    unfolding p400_def p100_def using dvd_trans [OF d2, of "Suc k"]
    by (simp add: mod_eq_0_iff_dvd)
  have old: "days_before_year y = k * 365 + a - b + c"
    by (simp add: y days_before_year_def a_def b_def c_def)
  have new: "days_before_year (Suc y) =
               Suc k * 365 + Suc k div 4 - Suc k div 100 + Suc k div 400"
    by (simp add: y days_before_year_def)
  have s4: "Suc k div 4 = (if p4 then Suc a else a)"
    and s100: "Suc k div 100 = (if p100 then Suc b else b)"
    and s400: "Suc k div 400 = (if p400 then Suc c else c)"
    by (simp_all add: div_Suc a_def b_def c_def p4_def p100_def p400_def)
  have lp: "is_leap y \<longleftrightarrow> p4 \<and> (\<not> p100 \<or> p400)"
    by (simp add: is_leap_def y p4_def p100_def p400_def)
  consider (plain) "\<not> p4" "\<not> p100" "\<not> p400"
    | (leap) "p4" "\<not> p100" "\<not> p400"
    | (century) "p4" "p100" "\<not> p400"
    | (fourth) "p4" "p100" "p400"
    using m1 m2 by blast
  then show ?thesis
  proof cases
    case plain
    then show ?thesis using le by (simp add: old new s4 s100 s400 lp)
  next
    case leap
    then show ?thesis using le by (simp add: old new s4 s100 s400 lp)
  next
    case century
    then show ?thesis using le by (simp add: old new s4 s100 s400 lp)
  next
    case fourth
    then show ?thesis using le by (simp add: old new s4 s100 s400 lp)
  qed
qed

lemma toordinal_next_day:
  assumes "valid_date d"
  shows "toordinal (next_day d) = toordinal d + 1"
proof -
  from assms have y: "1 \<le> year d" and m: "1 \<le> month d" "month d \<le> 12"
    and dd: "day d \<le> days_in_month (year d) (month d)"
    by (simp_all add: valid_date_def)
  show ?thesis
  proof (cases "day d < days_in_month (year d) (month d)")
    case True
    then show ?thesis by (simp add: next_day_def toordinal_def)
  next
    case False
    with dd have e: "day d = days_in_month (year d) (month d)" by simp
    show ?thesis
    proof (cases "month d < 12")
      case True
      with False e m days_before_month_Suc [of "month d" "year d"] show ?thesis
        by (simp add: next_day_def toordinal_def)
    next
      case False
      with m have m12: "month d = 12" by simp
      with e have "day d = 31" by (simp add: days_in_month_def)
      with m12 e days_before_year_Suc [OF y] days_before_month_12 [of "year d"]
      show ?thesis
        by (simp add: next_day_def toordinal_def days_before_month_1)
    qed
  qed
qed

lemma toordinal_first: "valid_date d \<Longrightarrow> 1 < toordinal d \<Longrightarrow>
    \<not> (year d = 1 \<and> month d = 1 \<and> day d = 1)"
  by (auto simp: toordinal_def days_before_year_def days_before_month_1)

lemma toordinal_prev_day:
  assumes "valid_date d" and "1 < toordinal d"
  shows "toordinal (prev_day d) = toordinal d - 1"
proof -
  have nf: "\<not> (year d = 1 \<and> month d = 1 \<and> day d = 1)"
    using assms by (rule toordinal_first)
  from toordinal_next_day [OF valid_date_prev_day [OF assms(1) nf]]
    next_prev_day [OF assms(1) nf]
  show ?thesis by simp
qed

lemma weekday_next_day: "valid_date d \<Longrightarrow> weekday (next_day d) = (weekday d + 1) mod 7"
proof -
  assume "valid_date d"
  then have "weekday (next_day d) = (toordinal d + 6 + 1) mod 7"
    by (simp add: weekday_def toordinal_next_day)
  also have "\<dots> = ((toordinal d + 6) mod 7 + 1) mod 7"
    by (rule mod_add_left_eq [symmetric])
  finally show ?thesis by (simp add: weekday_def)
qed

lemma toordinal_pos: "valid_date d \<Longrightarrow> 1 \<le> toordinal d"
  by (simp add: valid_date_def toordinal_def)

lemma next_days:
  assumes "valid_date d"
  shows "valid_date ((next_day ^^ n) d)"
    and "toordinal ((next_day ^^ n) d) = toordinal d + n"
    and "(prev_day ^^ n) ((next_day ^^ n) d) = d"
proof -
  show v: "valid_date ((next_day ^^ n) d)" for n
    by (induction n) (simp_all add: assms valid_date_next_day)
  show "toordinal ((next_day ^^ n) d) = toordinal d + n"
    by (induction n) (simp_all add: toordinal_next_day v)
  show "(prev_day ^^ n) ((next_day ^^ n) d) = d"
  proof (induction n)
    case 0
    show ?case by simp
  next
    case (Suc n)
    have "(prev_day ^^ Suc n) ((next_day ^^ Suc n) d) =
            (prev_day ^^ n) (prev_day (next_day ((next_day ^^ n) d)))"
      by (simp add: funpow_swap1)
    with Suc v [of n] show ?case by (simp add: prev_next_day)
  qed
qed

lemma prev_days:
  assumes "valid_date d" and "n < toordinal d"
  shows "valid_date ((prev_day ^^ n) d)"
    and "toordinal ((prev_day ^^ n) d) = toordinal d - n"
    and "(next_day ^^ n) ((prev_day ^^ n) d) = d"
proof -
  have both: "valid_date ((prev_day ^^ n) d) \<and> toordinal ((prev_day ^^ n) d) = toordinal d - n"
    if "n < toordinal d" for n
    using that
  proof (induction n)
    case 0
    show ?case by (simp add: assms)
  next
    case (Suc n)
    then have ih: "valid_date ((prev_day ^^ n) d)"
      "toordinal ((prev_day ^^ n) d) = toordinal d - n" by simp_all
    from Suc(2) ih(2) have gt: "1 < toordinal ((prev_day ^^ n) d)" by simp
    from valid_date_prev_day [OF ih(1) toordinal_first [OF ih(1) gt]]
      toordinal_prev_day [OF ih(1) gt] ih(2)
    show ?case by simp
  qed
  from both [OF assms(2)] show "valid_date ((prev_day ^^ n) d)"
    and "toordinal ((prev_day ^^ n) d) = toordinal d - n" by simp_all
  show "(next_day ^^ n) ((prev_day ^^ n) d) = d"
    using assms(2)
  proof (induction n)
    case 0
    show ?case by simp
  next
    case (Suc n)
    then have n: "n < toordinal d" by simp
    from both [OF n] Suc(2) have v: "valid_date ((prev_day ^^ n) d)"
      and gt: "1 < toordinal ((prev_day ^^ n) d)" by simp_all
    have "(next_day ^^ Suc n) ((prev_day ^^ Suc n) d) =
            (next_day ^^ n) (next_day (prev_day ((prev_day ^^ n) d)))"
      by (simp add: funpow_swap1)
    with Suc(1) [OF n] next_prev_day [OF v toordinal_first [OF v gt]] show ?case by simp
  qed
qed

lemma next_day_time:
  "hour (next_day d) = hour d" "minute (next_day d) = minute d"
  "second (next_day d) = second d" "microsecond (next_day d) = microsecond d"
  by (simp_all add: next_day_def)

lemma prev_day_time:
  "hour (prev_day d) = hour d" "minute (prev_day d) = minute d"
  "second (prev_day d) = second d" "microsecond (prev_day d) = microsecond d"
  by (simp_all add: prev_day_def)

lemma at_midnight_next_days: "at_midnight d \<Longrightarrow> at_midnight ((next_day ^^ n) d)"
  by (induction n) (simp_all add: at_midnight_def next_day_time)

lemma at_midnight_prev_days: "at_midnight d \<Longrightarrow> at_midnight ((prev_day ^^ n) d)"
  by (induction n) (simp_all add: at_midnight_def prev_day_time)

lemma at_midnight_midnight: "at_midnight (midnight d)"
  by (simp add: at_midnight_def midnight_def)

lemma midnight_fixed: "at_midnight d \<Longrightarrow> midnight d = d"
  by (simp add: at_midnight_def midnight_def)

lemma date_key_midnight: "date_key (midnight d) = date_key d"
  by (simp add: date_key_def midnight_def)

lemma valid_date_midnight: "valid_date (midnight d) \<longleftrightarrow> valid_date d"
  by (simp add: valid_date_def midnight_def)

lemma valid_datetime_date: "valid_datetime d \<Longrightarrow> valid_date d"
  by (simp add: valid_datetime_def valid_date_def)

lemma valid_datetime_midnight:
  "valid_date d \<Longrightarrow> year d \<le> 9999 \<Longrightarrow> at_midnight d \<Longrightarrow> valid_datetime d"
  by (simp add: valid_datetime_def valid_date_def at_midnight_def)

lemma same_date_midnight:
  "at_midnight a \<Longrightarrow> at_midnight b \<Longrightarrow> date_key a = date_key b \<Longrightarrow> a = b"
  for a b :: datetime
  by (cases a; cases b) (simp add: at_midnight_def date_key_def)

lemma key_le_midnight:
  "at_midnight st \<Longrightarrow> dt_key st \<le> dt_key t \<longleftrightarrow> date_key st \<le> date_key t"
  by (auto simp: at_midnight_def dt_key_def date_key_def)

lemma key_less_midnight:
  "at_midnight en \<Longrightarrow> dt_key t < dt_key en \<longleftrightarrow> date_key t < date_key en"
  by (auto simp: at_midnight_def dt_key_def date_key_def)

lemma date_less_next_day:
  assumes "valid_date d" and "valid_date t"
  shows "date_key t < date_key (next_day d) \<longleftrightarrow> date_key t \<le> date_key d"
  using assms
  by (cases "year t" "year d" rule: linorder_cases;
      cases "month t" "month d" rule: linorder_cases)
     (auto simp: valid_date_def date_key_def next_day_def)

lemma date_less_next_days:
  assumes "valid_date d" and "valid_date t"
    and "date_key d \<le> date_key t" and "date_key t < date_key ((next_day ^^ n) d)"
  shows "\<exists>i<n. date_key t = date_key ((next_day ^^ i) d)"
  using assms(4)
proof (induction n)
  case 0
  with assms(3) show ?case by simp
next
  case (Suc n)
  from Suc(2) date_less_next_day [OF next_days(1) [OF assms(1), of n] assms(2)]
  have "date_key t \<le> date_key ((next_day ^^ n) d)" by simp
  then consider "date_key t < date_key ((next_day ^^ n) d)"
    | "date_key t = date_key ((next_day ^^ n) d)"
    by (auto simp: le_less)
  then show ?case
  proof cases
    case 1
    with Suc(1) obtain i where "i < n" "date_key t = date_key ((next_day ^^ i) d)" by blast
    then show ?thesis by (auto intro: exI [of _ i])
  next
    case 2
    then show ?thesis by blast
  qed
qed

lemma date_less_next: "valid_date d \<Longrightarrow> date_key d < date_key (next_day d)"
  using date_less_next_day [of d d] by simp

lemma date_le_next_days: "valid_date d \<Longrightarrow> date_key d \<le> date_key ((next_day ^^ n) d)"
proof (induction n)
  case 0
  show ?case by simp
next
  case (Suc n)
  from date_less_next [OF next_days(1) [OF Suc(2), of n]] Suc show ?case by simp
qed

lemma date_less_next_days_pos:
  "valid_date d \<Longrightarrow> 0 < n \<Longrightarrow> date_key d < date_key ((next_day ^^ n) d)"
proof -
  assume v: "valid_date d" and "0 < n"
  then obtain m where n: "n = Suc m" by (cases n) auto
  from date_le_next_days [OF v, of m] date_less_next [OF next_days(1) [OF v, of m]]
  show ?thesis by (simp add: n)
qed

subsection \<open>Windows of whole days\<close>

lemma year_le_of_date_le: "date_key a \<le> date_key b \<Longrightarrow> year a \<le> year b"
  by (auto simp: date_key_def)

lemma day_window:
  assumes st: "valid_date st" "at_midnight st"
    and en: "year ((next_day ^^ n) st) \<le> 9999"
    and t: "valid_datetime t"
  shows "isoformat st \<le> isoformat t \<and> isoformat t < isoformat ((next_day ^^ n) st) \<longleftrightarrow>
         (\<exists>i<n. midnight t = (next_day ^^ i) st)"
proof -
  let ?en = "(next_day ^^ n) st"
  have ven: "valid_date ?en" and men: "at_midnight ?en"
    using st by (simp_all add: next_days(1) at_midnight_next_days)
  have yst: "year st \<le> 9999"
    using year_le_of_date_le [OF date_le_next_days [OF st(1), of n]] en by simp
  have vst: "valid_datetime st" and vend: "valid_datetime ?en"
    using st yst ven men en by (simp_all add: valid_datetime_midnight)
  have vt: "valid_date t" using t by (rule valid_datetime_date)
  have iso: "isoformat st \<le> isoformat t \<and> isoformat t < isoformat ?en \<longleftrightarrow>
             date_key st \<le> date_key t \<and> date_key t < date_key ?en"
    by (simp add: isoformat_le [OF vst t] isoformat_less [OF t vend]
        key_le_midnight [OF st(2)] key_less_midnight [OF men])
  show ?thesis
  proof
    assume "isoformat st \<le> isoformat t \<and> isoformat t < isoformat ?en"
    with iso have "date_key st \<le> date_key t" "date_key t < date_key ?en" by simp_all
    from date_less_next_days [OF st(1) vt this] obtain i
      where i: "i < n" "date_key t = date_key ((next_day ^^ i) st)" by blast
    have "midnight t = (next_day ^^ i) st"
      by (rule same_date_midnight)
         (simp_all add: at_midnight_midnight at_midnight_next_days st date_key_midnight i)
    with i show "\<exists>i<n. midnight t = (next_day ^^ i) st" by blast
  next
    assume "\<exists>i<n. midnight t = (next_day ^^ i) st"
    then obtain i where i: "i < n" "midnight t = (next_day ^^ i) st" by blast
    let ?m = "(next_day ^^ i) st"
    have k: "date_key t = date_key ?m"
      using i(2) date_key_midnight [of t] by simp
    have vm: "valid_date ?m" using st by (simp add: next_days(1))
    have "?en = (next_day ^^ (n - i)) ?m"
      using i(1) funpow_add [of "n - i" i next_day] by (simp add: comp_def)
    with date_less_next_days_pos [OF vm, of "n - i"] i(1)
    have "date_key ?m < date_key ?en" by simp
    with k date_le_next_days [OF st(1), of i] iso
    show "isoformat st \<le> isoformat t \<and> isoformat t < isoformat ?en" by simp
  qed
qed

lemma weekday_less_7: "weekday d < 7"
  by (simp add: weekday_def)

lemma weekday_less_toordinal: "valid_date d \<Longrightarrow> weekday d < toordinal d"
proof -
  assume "valid_date d"
  then obtain k where k: "toordinal d = Suc k"
    using toordinal_pos [of d] by (cases "toordinal d") auto
  have "(Suc k + 6) mod 7 = k mod 7" by (simp add: mod_simps)
  also have "\<dots> \<le> k" by simp
  finally show ?thesis by (simp add: weekday_def k)
qed

lemma weekday_next_days:
  "valid_date d \<Longrightarrow> weekday ((next_day ^^ i) d) = (weekday d + i) mod 7"
proof -
  assume "valid_date d"
  then have "weekday ((next_day ^^ i) d) = (toordinal d + 6 + i) mod 7"
    by (simp add: weekday_def next_days(2) add_ac)
  also have "\<dots> = ((toordinal d + 6) mod 7 + i) mod 7"
    by (rule mod_add_left_eq [symmetric])
  finally show ?thesis by (simp add: weekday_def)
qed

lemma monday_of:
  assumes "valid_date d"
  shows "valid_date (monday_of d)" and "weekday (monday_of d) = 0"
    and "(next_day ^^ weekday d) (monday_of d) = d"
    and "toordinal (monday_of d) = toordinal d - weekday d"
proof -
  note lt = weekday_less_toordinal [OF assms]
  show "valid_date (monday_of d)" and "(next_day ^^ weekday d) (monday_of d) = d"
    and o: "toordinal (monday_of d) = toordinal d - weekday d"
    unfolding monday_of_def using prev_days [OF assms lt] by simp_all
  have "toordinal d + 6 = 7 * ((toordinal d + 6) div 7) + weekday d"
    by (simp add: weekday_def)
  with lt have "toordinal d - weekday d + 6 = 7 * ((toordinal d + 6) div 7)" by linarith
  then show "weekday (monday_of d) = 0"
    by (simp add: weekday_def [of "monday_of d"] o)
qed

lemma monday_of_next_days:
  assumes "valid_date m" and "weekday m = 0" and "i < 7"
  shows "monday_of ((next_day ^^ i) m) = m"
proof -
  have "weekday ((next_day ^^ i) m) = i"
    using weekday_next_days [OF assms(1), of i] assms(2,3) by simp
  then show ?thesis by (simp add: monday_of_def next_days(3) [OF assms(1)])
qed

subsection \<open>The three report ranges\<close>

lemma dt_key_inj: "dt_key a = dt_key b \<Longrightarrow> a = b" for a b :: datetime
  by (cases a; cases b) (simp add: dt_key_def)

lemma isoformat_inj:
  "valid_datetime a \<Longrightarrow> valid_datetime b \<Longrightarrow> isoformat a = isoformat b \<Longrightarrow> a = b"
  using isoformat_eq dt_key_inj by blast

lemma valid_datetime_midnight_of: "valid_datetime d \<Longrightarrow> valid_datetime (midnight d)"
  by (simp add: valid_datetime_def midnight_def)

lemma today_range_eq:
  "today_range now =
     (if year (next_day (midnight now)) \<le> 9999
      then Inr (isoformat (midnight now), isoformat (next_day (midnight now)))
      else Inl OverflowError)"
  by (simp add: today_range_def plus_days_def Let_def)

lemma week_range_monday_eq:
  assumes "valid_date now"
  shows "week_range_monday now =
     (if year ((next_day ^^ 7) (monday_of (midnight now))) \<le> 9999
      then Inr (isoformat (monday_of (midnight now)),
                isoformat ((next_day ^^ 7) (monday_of (midnight now))))
      else Inl OverflowError)"
proof -
  have "valid_date (midnight now)" using assms by (simp add: valid_date_midnight)
  from weekday_less_toordinal [OF this] show ?thesis
    by (simp add: week_range_monday_def minus_days_def plus_days_def Let_def monday_of_def)
qed

lemma today_range_props:
  assumes now: "valid_datetime now" and t: "valid_datetime t"
    and r: "today_range now = Inr (s, e)"
  shows "s \<le> isoformat now" and "isoformat now < e"
    and "s \<le> isoformat t \<and> isoformat t < e \<longleftrightarrow> today_range t = Inr (s, e)"
    and "\<exists>en. valid_datetime en \<and> isoformat en = e \<and> en = next_day (midnight now) \<and>
           at_midnight en \<and> (\<forall>s' e'. today_range en = Inr (s', e') \<longrightarrow> s' = e)"
proof -
  let ?st = "midnight now" and ?en = "next_day (midnight now)"
  from r have y: "year ?en \<le> 9999" and s: "s = isoformat ?st" and e: "e = isoformat ?en"
    by (simp_all add: today_range_eq split: if_splits)
  have vst: "valid_date ?st" and mst: "at_midnight ?st"
    using now by (simp_all add: valid_date_midnight valid_datetime_date at_midnight_midnight)
  have y1: "year ((next_day ^^ 1) ?st) \<le> 9999" using y by simp
  have w: "s \<le> isoformat u \<and> isoformat u < e \<longleftrightarrow> midnight u = ?st"
    if "valid_datetime u" for u
    using day_window [OF vst mst y1 that] by (simp add: s e)
  from w [OF now] show "s \<le> isoformat now" and "isoformat now < e" by simp_all
  have men: "at_midnight ?en" using at_midnight_next_days [OF mst, of 1] by simp
  have ven: "valid_datetime ?en"
    using valid_date_next_day [OF vst] y men by (rule valid_datetime_midnight)
  show "s \<le> isoformat t \<and> isoformat t < e \<longleftrightarrow> today_range t = Inr (s, e)"
  proof
    assume "s \<le> isoformat t \<and> isoformat t < e"
    with w [OF t] have "midnight t = ?st" by simp
    with y s e show "today_range t = Inr (s, e)" by (simp add: today_range_eq)
  next
    assume "today_range t = Inr (s, e)"
    then have "isoformat (midnight t) = isoformat ?st"
      by (simp add: today_range_eq s split: if_splits)
    then have "midnight t = ?st"
      using isoformat_inj valid_datetime_midnight_of [OF t] valid_datetime_midnight_of [OF now]
      by blast
    with w [OF t] show "s \<le> isoformat t \<and> isoformat t < e" by simp
  qed
  have "\<forall>s' e'. today_range ?en = Inr (s', e') \<longrightarrow> s' = e"
    by (simp add: today_range_eq midnight_fixed [OF men] e split: if_splits)
  with ven men e show "\<exists>en. valid_datetime en \<and> isoformat en = e \<and>
      en = next_day (midnight now) \<and> at_midnight en \<and>
      (\<forall>s' e'. today_range en = Inr (s', e') \<longrightarrow> s' = e)"
    by blast
qed

lemma week_range_props:
  assumes now: "valid_datetime now" and t: "valid_datetime t"
    and r: "week_range_monday now = Inr (s, e)"
  shows "s \<le> isoformat now" and "isoformat now < e"
    and "s \<le> isoformat t \<and> isoformat t < e \<longleftrightarrow> week_range_monday t = Inr (s, e)"
    and "\<exists>st en. valid_datetime st \<and> valid_datetime en \<and> isoformat st = s \<and>
           isoformat en = e \<and> at_midnight st \<and> weekday st = 0 \<and>
           en = (next_day ^^ 7) st \<and>
           (\<forall>s' e'. week_range_monday en = Inr (s', e') \<longrightarrow> s' = e)"
proof -
  let ?m = "monday_of (midnight now)"
  let ?en = "(next_day ^^ 7) ?m"
  have vn: "valid_date now" and vt: "valid_date t"
    using now t by (simp_all add: valid_datetime_date)
  have vmn: "valid_date (midnight now)" and vmt: "valid_date (midnight t)"
    using vn vt by (simp_all add: valid_date_midnight)
  from r have y: "year ?en \<le> 9999" and s: "s = isoformat ?m" and e: "e = isoformat ?en"
    by (simp_all add: week_range_monday_eq [OF vn] split: if_splits)
  note m = monday_of [OF vmn]
  have mm: "at_midnight ?m"
    unfolding monday_of_def by (rule at_midnight_prev_days) (rule at_midnight_midnight)
  have w: "s \<le> isoformat u \<and> isoformat u < e \<longleftrightarrow> (\<exists>i<7. midnight u = (next_day ^^ i) ?m)"
    if "valid_datetime u" for u
    using day_window [OF m(1) mm y that] by (simp add: s e)
  have same: "(\<exists>i<7. midnight u = (next_day ^^ i) ?m) \<longleftrightarrow> monday_of (midnight u) = ?m"
    if "valid_date u" for u
  proof
    assume "\<exists>i<7. midnight u = (next_day ^^ i) ?m"
    then show "monday_of (midnight u) = ?m"
      using monday_of_next_days [OF m(1) m(2)] by auto
  next
    assume a: "monday_of (midnight u) = ?m"
    have "valid_date (midnight u)" using that by (simp add: valid_date_midnight)
    from monday_of(3) [OF this] a
    have "midnight u = (next_day ^^ weekday (midnight u)) ?m" by simp
    with weekday_less_7 [of "midnight u"]
    show "\<exists>i<7. midnight u = (next_day ^^ i) ?m" by blast
  qed
  from w [OF now] same [OF vn] show "s \<le> isoformat now" and "isoformat now < e"
    by simp_all
  have ym: "year ?m \<le> 9999"
    using year_le_of_date_le [OF date_le_next_days [OF m(1), of 7]] y by simp
  have vm: "valid_datetime ?m" using m(1) ym mm by (rule valid_datetime_midnight)
  have men: "at_midnight ?en" using mm by (rule at_midnight_next_days)
  have vden: "valid_date ?en" using m(1) by (rule next_days(1))
  have ven: "valid_datetime ?en" using vden y men by (rule valid_datetime_midnight)
  show "s \<le> isoformat t \<and> isoformat t < e \<longleftrightarrow> week_range_monday t = Inr (s, e)"
  proof
    assume "s \<le> isoformat t \<and> isoformat t < e"
    with w [OF t] same [OF vt] have "monday_of (midnight t) = ?m" by simp
    with y s e show "week_range_monday t = Inr (s, e)"
      by (simp add: week_range_monday_eq [OF vt])
  next
    assume a: "week_range_monday t = Inr (s, e)"
    let ?mt = "monday_of (midnight t)"
    from a have i: "isoformat ?mt = isoformat ?m"
      by (simp add: week_range_monday_eq [OF vt] s split: if_splits)
    note mt = monday_of [OF vmt]
    have "date_key ?mt \<le> date_key (midnight t)"
      using date_le_next_days [OF mt(1), of "weekday (midnight t)"] mt(3) by simp
    then have "year ?mt \<le> 9999"
      using year_le_of_date_le [of ?mt "midnight t"] t
      by (simp add: valid_datetime_def midnight_def)
    moreover have "at_midnight ?mt"
      unfolding monday_of_def by (rule at_midnight_prev_days) (rule at_midnight_midnight)
    ultimately have "valid_datetime ?mt" using mt(1) by (simp add: valid_datetime_midnight)
    with i vm have "?mt = ?m" using isoformat_inj by blast
    with w [OF t] same [OF vt] show "s \<le> isoformat t \<and> isoformat t < e" by simp
  qed
  have wk: "weekday ?en = 0" using weekday_next_days [OF m(1), of 7] m(2) by simp
  have "monday_of ?en = ?en"
    unfolding monday_of_def [of ?en] wk by simp
  then have "monday_of (midnight ?en) = ?en"
    by (simp only: midnight_fixed [OF men])
  then have "\<forall>s' e'. week_range_monday ?en = Inr (s', e') \<longrightarrow> s' = e"
    by (simp add: week_range_monday_eq [OF vden] e split: if_splits)
  with vm ven s e mm m(2)
  show "\<exists>st en. valid_datetime st \<and> valid_datetime en \<and> isoformat st = s \<and>
           isoformat en = e \<and> at_midnight st \<and> weekday st = 0 \<and>
           en = (next_day ^^ 7) st \<and>
           (\<forall>s' e'. week_range_monday en = Inr (s', e') \<longrightarrow> s' = e)"
    by blast
qed

lemma month_range_eq:
  "month_range now =
     (if month now = 12 then
        (if 9999 \<le> year now then Inl ValueError
         else Inr (isoformat ((midnight now)\<lparr>day := 1\<rparr>),
                   isoformat ((midnight now)\<lparr>day := 1, year := year now + 1, month := 1\<rparr>)))
      else Inr (isoformat ((midnight now)\<lparr>day := 1\<rparr>),
                isoformat ((midnight now)\<lparr>day := 1, month := month now + 1\<rparr>)))"
  by (simp add: month_range_def Let_def midnight_def)

lemma month_window:
  fixes y m yu mu d :: nat
  assumes "1 \<le> d"
  shows "[y, m, 1] \<le> [yu, mu, d] \<and> [yu, mu, d] < [y, m + 1, 1] \<longleftrightarrow> yu = y \<and> mu = m"
  using assms
  by (cases yu y rule: linorder_cases; cases mu m rule: linorder_cases) auto

lemma december_window:
  fixes y yu mu d :: nat
  assumes "1 \<le> d" and "1 \<le> mu" and "mu \<le> 12"
  shows "[y, 12, 1] \<le> [yu, mu, d] \<and> [yu, mu, d] < [y + 1, 1, 1] \<longleftrightarrow> yu = y \<and> mu = 12"
  using assms
  by (cases yu y rule: linorder_cases; cases "mu = 12") auto

lemma month_start_eq:
  "year a = year b \<Longrightarrow> month a = month b \<Longrightarrow>
   (midnight a)\<lparr>day := 1\<rparr> = (midnight b)\<lparr>day := 1\<rparr>"
  for a b :: datetime
  by (cases a; cases b) (simp add: midnight_def)

lemma month_start_fixed:
  "at_midnight d \<Longrightarrow> day d = 1 \<Longrightarrow> (midnight d)\<lparr>day := 1\<rparr> = d"
  by (cases d) (simp add: midnight_def at_midnight_def)

lemma month_range_props:
  assumes now: "valid_datetime now" and t: "valid_datetime t"
    and r: "month_range now = Inr (s, e)"
  shows "s \<le> isoformat now" and "isoformat now < e"
    and "s \<le> isoformat t \<and> isoformat t < e \<longleftrightarrow> month_range t = Inr (s, e)"
    and "\<exists>st en. valid_datetime st \<and> valid_datetime en \<and> isoformat st = s \<and>
           isoformat en = e \<and> at_midnight st \<and> day st = 1 \<and> at_midnight en \<and> day en = 1 \<and>
           year st = year now \<and> month st = month now \<and>
           (if month st = 12 then year en = year st + 1 \<and> month en = 1
            else year en = year st \<and> month en = month st + 1) \<and>
           (\<forall>s' e'. month_range en = Inr (s', e') \<longrightarrow> s' = e)"
proof -
  define st where "st = (midnight now)\<lparr>day := 1\<rparr>"
  define en where "en = (if month now = 12 then st\<lparr>year := year now + 1, month := 1\<rparr>
                        else st\<lparr>month := month now + 1\<rparr>)"
  from r have ok: "month now = 12 \<longrightarrow> year now < 9999"
    and s: "s = isoformat st" and e: "e = isoformat en"
    by (auto simp: month_range_eq st_def en_def split: if_splits)
  have vst: "valid_datetime st"
    using now days_in_month_bounds(1) [of "year now" "month now"]
    by (simp add: valid_datetime_def st_def midnight_def)
  have ven: "valid_datetime en"
    using now ok days_in_month_bounds(1) [of "year now" "month now + 1"]
      days_in_month_bounds(1) [of "year now + 1" 1]
    by (auto simp: valid_datetime_def en_def st_def midnight_def)
  have mst: "at_midnight st" and men: "at_midnight en"
    by (simp_all add: st_def en_def at_midnight_def midnight_def)
  have w: "s \<le> isoformat u \<and> isoformat u < e \<longleftrightarrow> year u = year now \<and> month u = month now"
    if "valid_datetime u" for u
  proof -
    have "date_key st \<le> date_key u \<and> date_key u < date_key en \<longleftrightarrow>
          year u = year now \<and> month u = month now"
    proof -
      from that have u: "1 \<le> day u" "1 \<le> month u" "month u \<le> 12"
        by (simp_all add: valid_datetime_def)
      show ?thesis
      proof (cases "month now = 12")
        case True
        with december_window [OF u, of "year now"] show ?thesis
          by (simp add: date_key_def st_def en_def midnight_def)
      next
        case False
        with month_window [OF u(1), of "year now" "month now" "year u" "month u"] show ?thesis
          by (simp add: date_key_def st_def en_def midnight_def)
      qed
    qed
    then show ?thesis
      by (simp add: s e isoformat_le [OF vst that] isoformat_less [OF that ven]
          key_le_midnight [OF mst] key_less_midnight [OF men])
  qed
  from w [OF now] show "s \<le> isoformat now" and "isoformat now < e" by simp_all
  show "s \<le> isoformat t \<and> isoformat t < e \<longleftrightarrow> month_range t = Inr (s, e)"
  proof
    assume "s \<le> isoformat t \<and> isoformat t < e"
    with w [OF t] have ym: "year t = year now" "month t = month now" by simp_all
    then have "(midnight t)\<lparr>day := 1\<rparr> = (midnight now)\<lparr>day := 1\<rparr>"
      by (rule month_start_eq)
    then have "month_range t = month_range now"
      by (simp only: month_range_eq ym)
    with r show "month_range t = Inr (s, e)" by simp
  next
    assume a: "month_range t = Inr (s, e)"
    have vt: "valid_datetime ((midnight t)\<lparr>day := 1\<rparr>)"
      using t days_in_month_bounds(1) [of "year t" "month t"]
      by (simp add: valid_datetime_def midnight_def)
    from a have "isoformat ((midnight t)\<lparr>day := 1\<rparr>) = isoformat st"
      by (auto simp: month_range_eq s split: if_splits)
    with isoformat_inj [OF vt vst] have "(midnight t)\<lparr>day := 1\<rparr> = st" by blast
    then have "year ((midnight t)\<lparr>day := 1\<rparr>) = year st"
      and "month ((midnight t)\<lparr>day := 1\<rparr>) = month st" by simp_all
    then have "year t = year now" "month t = month now"
      by (simp_all add: st_def midnight_def)
    with w [OF t] show "s \<le> isoformat t \<and> isoformat t < e" by simp
  qed
  have shape: "at_midnight st" "day st = 1" "at_midnight en" "day en = 1"
    "year st = year now" "month st = month now"
    "if month st = 12 then year en = year st + 1 \<and> month en = 1
     else year en = year st \<and> month en = month st + 1"
    by (simp_all add: st_def en_def at_midnight_def midnight_def)
  have "(midnight en)\<lparr>day := 1\<rparr> = en"
    using shape(3,4) by (rule month_start_fixed)
  then have adj: "\<forall>s' e'. month_range en = Inr (s', e') \<longrightarrow> s' = e"
    unfolding month_range_eq e by (auto split: if_splits)
  from shape vst ven s e adj
  show "\<exists>st en. valid_datetime st \<and> valid_datetime en \<and> isoformat st = s \<and>
           isoformat en = e \<and> at_midnight st \<and> day st = 1 \<and> at_midnight en \<and> day en = 1 \<and>
           year st = year now \<and> month st = month now \<and>
           (if month st = 12 then year en = year st + 1 \<and> month en = 1
            else year en = year st \<and> month en = month st + 1) \<and>
           (\<forall>s' e'. month_range en = Inr (s', e') \<longrightarrow> s' = e)"
    by blast
qed

lemma year_next_day: "year (next_day d) \<le> year d + 1"
  by (simp add: next_day_def)

lemma year_next_day_step:
  assumes "year x = y \<or> (year x = y + 1 \<and> month x = 1 \<and> day x \<le> n)" and "n \<le> 26"
  shows "year (next_day x) = y \<or>
         (year (next_day x) = y + 1 \<and> month (next_day x) = 1 \<and> day (next_day x) \<le> Suc n)"
  using assms(1)
proof
  assume "year x = y"
  then show ?thesis by (simp add: next_day_def)
next
  assume b: "year x = y + 1 \<and> month x = 1 \<and> day x \<le> n"
  with assms(2) have "day x < days_in_month (year x) (month x)"
    by (simp add: days_in_month_def)
  with b show ?thesis by (simp add: next_day_def)
qed

lemma year_next_days:
  "n \<le> 27 \<Longrightarrow> year ((next_day ^^ n) d) = year d \<or>
         (year ((next_day ^^ n) d) = year d + 1 \<and> month ((next_day ^^ n) d) = 1 \<and>
          day ((next_day ^^ n) d) \<le> n)"
proof (induction n)
  case 0
  show ?case by simp
next
  case (Suc n)
  then have "year ((next_day ^^ n) d) = year d \<or>
         (year ((next_day ^^ n) d) = year d + 1 \<and> month ((next_day ^^ n) d) = 1 \<and>
          day ((next_day ^^ n) d) \<le> n)" and "n \<le> 26" by simp_all
  from year_next_day_step [OF this] show ?case by simp
qed

lemma ranges_exist:
  assumes "valid_datetime now" and "year now < 9999"
  shows "\<exists>s e. today_range now = Inr (s, e)"
    and "\<exists>s e. week_range_monday now = Inr (s, e)"
    and "\<exists>s e. month_range now = Inr (s, e)"
proof -
  have vn: "valid_date now" using assms(1) by (rule valid_datetime_date)
  have vm: "valid_date (midnight now)" using vn by (simp add: valid_date_midnight)
  have "year (next_day (midnight now)) \<le> year (midnight now) + 1" by (rule year_next_day)
  with assms(2) show "\<exists>s e. today_range now = Inr (s, e)"
    by (simp add: today_range_eq midnight_def)
  let ?m = "monday_of (midnight now)"
  note m = monday_of [OF vm]
  have "date_key ?m \<le> date_key (midnight now)"
    using date_le_next_days [OF m(1), of "weekday (midnight now)"] m(3) by simp
  then have "year ?m \<le> year now"
    using year_le_of_date_le [of ?m "midnight now"] by (simp add: midnight_def)
  moreover have "year ((next_day ^^ 7) ?m) \<le> year ?m + 1"
    using year_next_days [of 7 ?m] by auto
  ultimately have "year ((next_day ^^ 7) ?m) \<le> 9999" using assms(2) by simp
  then show "\<exists>s e. week_range_monday now = Inr (s, e)"
    by (simp add: week_range_monday_eq [OF vn])
  from assms(2) show "\<exists>s e. month_range now = Inr (s, e)"
    by (simp add: month_range_eq)
qed

lemma month_range_year_end:
  "month_range last_of_2024 =
     Inr (ascii ''2024-12-01T00:00:00+08:00'', ascii ''2025-01-01T00:00:00+08:00'')"
  "month_range first_of_2025 =
     Inr (ascii ''2025-01-01T00:00:00+08:00'', ascii ''2025-02-01T00:00:00+08:00'')"
  by code_simp+

lemma today_at_noon:
  "today_range noon =
     Inr (ascii ''2024-12-31T00:00:00+08:00'', ascii ''2025-01-01T00:00:00+08:00'')"
  by code_simp

lemma month_at_noon:
  "month_range noon =
     Inr (ascii ''2024-12-01T00:00:00+08:00'', ascii ''2025-01-01T00:00:00+08:00'')"
  by code_simp

lemma today_month_at_9999:
  "valid_datetime last_day_of_9999"
  "today_range last_day_of_9999 = Inl OverflowError"
  "month_range last_day_of_9999 = Inl ValueError"
  by code_simp+

lemma next_day_numeral:
  "(next_day ^^ numeral k) d = next_day ((next_day ^^ pred_numeral k) d)"
  by (simp add: numeral_eq_Suc)

lemma week_at_noon:
  "week_range_monday noon =
     Inr (ascii ''2024-12-30T00:00:00+08:00'', ascii ''2025-01-06T00:00:00+08:00'')"
proof -
  let ?m = "\<lparr>year = 2024, month = 12, day = 30, hour = 0, minute = 0, second = 0,
             microsecond = 0\<rparr>"
  let ?e = "\<lparr>year = 2025, month = 1, day = 6, hour = 0, minute = 0, second = 0,
             microsecond = 0\<rparr>"
  have v: "valid_date ?m" by code_simp
  have w: "weekday ?m = 0" by code_simp
  have n: "(next_day ^^ 1) ?m = midnight noon" by code_simp
  have "monday_of ((next_day ^^ 1) ?m) = ?m" using v w by (rule monday_of_next_days) simp
  then have m: "monday_of (midnight noon) = ?m" by (simp only: n)
  have e: "(next_day ^^ 7) ?m = ?e"
    by (simp add: next_day_numeral next_day_def days_in_month_def is_leap_def)
  have i: "isoformat ?m = ascii ''2024-12-30T00:00:00+08:00''"
    "isoformat ?e = ascii ''2025-01-06T00:00:00+08:00''" by code_simp+
  have "valid_date noon" by code_simp
  from week_range_monday_eq [OF this] show ?thesis by (simp only: m e i) simp
qed

lemma week_at_9999: "week_range_monday last_day_of_9999 = Inl OverflowError"
proof -
  let ?m = "\<lparr>year = 9999, month = 12, day = 27, hour = 0, minute = 0, second = 0,
             microsecond = 0\<rparr>"
  have v: "valid_date ?m" by code_simp
  have w: "weekday ?m = 0" by code_simp
  have n: "(next_day ^^ 4) ?m = midnight last_day_of_9999"
    by (simp add: next_day_numeral next_day_def days_in_month_def is_leap_def midnight_def
        last_day_of_9999_def)
  have "monday_of ((next_day ^^ 4) ?m) = ?m" using v w by (rule monday_of_next_days) simp
  then have m: "monday_of (midnight last_day_of_9999) = ?m" by (simp only: n)
  have e: "year ((next_day ^^ 7) ?m) = 10000"
    by (simp add: next_day_numeral next_day_def days_in_month_def is_leap_def)
  have "valid_date last_day_of_9999" by code_simp
  from week_range_monday_eq [OF this] show ?thesis by (simp only: m e) simp
qed

text \<open>
  Claim C4.  Let \<open>now\<close> and \<open>t\<close> be instants of the +08:00 clock.  Whenever \<open>today_range\<close>,
  \<open>week_range_monday\<close> or \<open>month_range\<close> returns a pair \<open>(s, e)\<close> at \<open>now\<close>, the pair is a
  half-open range of timestamps, compared as the query of \<open>sum_tx\<close> compares them
  (\<open>s \<le> ts\<close> and \<open>ts < e\<close>), such that: the timestamp of \<open>now\<close> is in the range; the
  timestamp of \<open>t\<close> is in the range exactly when the function returns the same pair at
  \<open>t\<close>, so two different ranges of one function share no instant and every instant at
  which the function returns is in its own range; and \<open>e\<close> is the timestamp of a
  midnight at which the function, if it returns, returns a range that starts at \<open>e\<close>,
  so there is no gap between a period and the next one.  The day range ends at the
  next midnight, the week range starts on a Monday and ends seven days later, the month
  range starts on the first of the month of \<open>now\<close> and ends on the first of the next
  month, which is January of the next year after December.  All three functions return
  at every instant before year 9999.  One second before midnight of 31 December 2024
  and midnight of 1 January 2025 are in different month ranges, the first ending where
  the second starts.
\<close>

theorem report_ranges_partition:
  assumes "valid_datetime now" and "valid_datetime t"
  shows
    "(\<forall>s e. today_range now = Inr (s, e) \<longrightarrow>
        s \<le> isoformat now \<and> isoformat now < e \<and>
        (s \<le> isoformat t \<and> isoformat t < e \<longleftrightarrow> today_range t = Inr (s, e)) \<and>
        (\<exists>en. valid_datetime en \<and> isoformat en = e \<and> en = next_day (midnight now) \<and>
           at_midnight en \<and> (\<forall>s' e'. today_range en = Inr (s', e') \<longrightarrow> s' = e))) \<and>
     (\<forall>s e. week_range_monday now = Inr (s, e) \<longrightarrow>
        s \<le> isoformat now \<and> isoformat now < e \<and>
        (s \<le> isoformat t \<and> isoformat t < e \<longleftrightarrow> week_range_monday t = Inr (s, e)) \<and>
        (\<exists>st en. valid_datetime st \<and> valid_datetime en \<and> isoformat st = s \<and>
           isoformat en = e \<and> at_midnight st \<and> weekday st = 0 \<and> en = (next_day ^^ 7) st \<and>
           (\<forall>s' e'. week_range_monday en = Inr (s', e') \<longrightarrow> s' = e))) \<and>
     (\<forall>s e. month_range now = Inr (s, e) \<longrightarrow>
        s \<le> isoformat now \<and> isoformat now < e \<and>
        (s \<le> isoformat t \<and> isoformat t < e \<longleftrightarrow> month_range t = Inr (s, e)) \<and>
        (\<exists>st en. valid_datetime st \<and> valid_datetime en \<and> isoformat st = s \<and>
           isoformat en = e \<and> at_midnight st \<and> day st = 1 \<and> at_midnight en \<and> day en = 1 \<and>
           year st = year now \<and> month st = month now \<and>
           (if month st = 12 then year en = year st + 1 \<and> month en = 1
            else year en = year st \<and> month en = month st + 1) \<and>
           (\<forall>s' e'. month_range en = Inr (s', e') \<longrightarrow> s' = e))) \<and>
     (year now < 9999 \<longrightarrow>
        (\<exists>s e. today_range now = Inr (s, e)) \<and>
        (\<exists>s e. week_range_monday now = Inr (s, e)) \<and>
        (\<exists>s e. month_range now = Inr (s, e))) \<and>
     month_range last_of_2024 =
       Inr (ascii ''2024-12-01T00:00:00+08:00'', ascii ''2025-01-01T00:00:00+08:00'') \<and>
     month_range first_of_2025 =
       Inr (ascii ''2025-01-01T00:00:00+08:00'', ascii ''2025-02-01T00:00:00+08:00'')"
proof (intro conjI allI impI)
  fix s e
  assume r: "today_range now = Inr (s, e)"
  from today_range_props [OF assms r]
  show "s \<le> isoformat now" and "isoformat now < e"
    and "s \<le> isoformat t \<and> isoformat t < e \<longleftrightarrow> today_range t = Inr (s, e)"
    and "\<exists>en. valid_datetime en \<and> isoformat en = e \<and> en = next_day (midnight now) \<and>
           at_midnight en \<and> (\<forall>s' e'. today_range en = Inr (s', e') \<longrightarrow> s' = e)"
    by blast+
next
  fix s e
  assume r: "week_range_monday now = Inr (s, e)"
  from week_range_props [OF assms r]
  show "s \<le> isoformat now" and "isoformat now < e"
    and "s \<le> isoformat t \<and> isoformat t < e \<longleftrightarrow> week_range_monday t = Inr (s, e)"
    and "\<exists>st en. valid_datetime st \<and> valid_datetime en \<and> isoformat st = s \<and>
           isoformat en = e \<and> at_midnight st \<and> weekday st = 0 \<and> en = (next_day ^^ 7) st \<and>
           (\<forall>s' e'. week_range_monday en = Inr (s', e') \<longrightarrow> s' = e)"
    by blast+
next
  fix s e
  assume r: "month_range now = Inr (s, e)"
  from month_range_props [OF assms r]
  show "s \<le> isoformat now" and "isoformat now < e"
    and "s \<le> isoformat t \<and> isoformat t < e \<longleftrightarrow> month_range t = Inr (s, e)"
    and "\<exists>st en. valid_datetime st \<and> valid_datetime en \<and> isoformat st = s \<and>
           isoformat en = e \<and> at_midnight st \<and> day st = 1 \<and> at_midnight en \<and> day en = 1 \<and>
           year st = year now \<and> month st = month now \<and>
           (if month st = 12 then year en = year st + 1 \<and> month en = 1
            else year en = year st \<and> month en = month st + 1) \<and>
           (\<forall>s' e'. month_range en = Inr (s', e') \<longrightarrow> s' = e)"
    by blast+
next
  assume y: "year now < 9999"
  from ranges_exist [OF assms(1) y]
  show "\<exists>s e. today_range now = Inr (s, e)"
    and "\<exists>s e. week_range_monday now = Inr (s, e)"
    and "\<exists>s e. month_range now = Inr (s, e)"
    by blast+
next
  show "month_range last_of_2024 =
       Inr (ascii ''2024-12-01T00:00:00+08:00'', ascii ''2025-01-01T00:00:00+08:00'')"
    and "month_range first_of_2025 =
       Inr (ascii ''2025-01-01T00:00:00+08:00'', ascii ''2025-02-01T00:00:00+08:00'')"
    by (rule month_range_year_end)+
qed

text \<open>
  At noon of 31 December 2024, a Tuesday, with the last second of that day as the other
  instant: both are in the same day, week and month range, and in no range that starts
  where one of these ends.
\<close>

theorem report_ranges_partition_witness:
  "valid_datetime noon \<and> valid_datetime last_of_2024 \<and> year noon < 9999 \<and>
   today_range noon =
     Inr (ascii ''2024-12-31T00:00:00+08:00'', ascii ''2025-01-01T00:00:00+08:00'') \<and>
   today_range last_of_2024 =
     Inr (ascii ''2024-12-31T00:00:00+08:00'', ascii ''2025-01-01T00:00:00+08:00'') \<and>
   ascii ''2024-12-31T00:00:00+08:00'' \<le> isoformat noon \<and>
   isoformat noon < ascii ''2025-01-01T00:00:00+08:00'' \<and>
   ascii ''2024-12-31T00:00:00+08:00'' \<le> isoformat last_of_2024 \<and>
   isoformat last_of_2024 < ascii ''2025-01-01T00:00:00+08:00'' \<and>
   week_range_monday noon =
     Inr (ascii ''2024-12-30T00:00:00+08:00'', ascii ''2025-01-06T00:00:00+08:00'') \<and>
   ascii ''2024-12-30T00:00:00+08:00'' \<le> isoformat noon \<and>
   isoformat noon < ascii ''2025-01-06T00:00:00+08:00'' \<and>
   month_range noon =
     Inr (ascii ''2024-12-01T00:00:00+08:00'', ascii ''2025-01-01T00:00:00+08:00'') \<and>
   month_range last_of_2024 =
     Inr (ascii ''2024-12-01T00:00:00+08:00'', ascii ''2025-01-01T00:00:00+08:00'') \<and>
   ascii ''2024-12-01T00:00:00+08:00'' \<le> isoformat last_of_2024 \<and>
   isoformat last_of_2024 < ascii ''2025-01-01T00:00:00+08:00'' \<and>
   (\<exists>s e. week_range_monday noon = Inr (s, e))"
proof -
  have v: "valid_datetime noon" "valid_datetime last_of_2024" by code_simp+
  have y: "year noon < 9999" by code_simp
  have d: "today_range last_of_2024 =
     Inr (ascii ''2024-12-31T00:00:00+08:00'', ascii ''2025-01-01T00:00:00+08:00'')"
    by code_simp
  note inst = report_ranges_partition [OF v]
  from inst have
    "\<forall>s e. today_range noon = Inr (s, e) \<longrightarrow>
        s \<le> isoformat noon \<and> isoformat noon < e \<and>
        (s \<le> isoformat last_of_2024 \<and> isoformat last_of_2024 < e \<longleftrightarrow>
         today_range last_of_2024 = Inr (s, e))"
    by blast
  with today_at_noon d have 1:
    "ascii ''2024-12-31T00:00:00+08:00'' \<le> isoformat noon \<and>
     isoformat noon < ascii ''2025-01-01T00:00:00+08:00'' \<and>
     ascii ''2024-12-31T00:00:00+08:00'' \<le> isoformat last_of_2024 \<and>
     isoformat last_of_2024 < ascii ''2025-01-01T00:00:00+08:00''"
    by blast
  from inst have
    "\<forall>s e. week_range_monday noon = Inr (s, e) \<longrightarrow>
        s \<le> isoformat noon \<and> isoformat noon < e"
    by blast
  with week_at_noon have 2:
    "ascii ''2024-12-30T00:00:00+08:00'' \<le> isoformat noon \<and>
     isoformat noon < ascii ''2025-01-06T00:00:00+08:00''"
    by blast
  from inst have
    "\<forall>s e. month_range noon = Inr (s, e) \<longrightarrow>
        (s \<le> isoformat last_of_2024 \<and> isoformat last_of_2024 < e \<longleftrightarrow>
         month_range last_of_2024 = Inr (s, e))"
    and m: "month_range last_of_2024 =
       Inr (ascii ''2024-12-01T00:00:00+08:00'', ascii ''2025-01-01T00:00:00+08:00'')"
    by blast+
  with month_at_noon have 3:
    "ascii ''2024-12-01T00:00:00+08:00'' \<le> isoformat last_of_2024 \<and>
     isoformat last_of_2024 < ascii ''2025-01-01T00:00:00+08:00''"
    by blast
  from inst y have 4: "\<exists>s e. week_range_monday noon = Inr (s, e)" by blast
  from v y today_at_noon d 1 week_at_noon 2 month_at_noon m 3 4 show ?thesis
    by (simp only: simp_thms)
qed

text \<open>
  At noon of 31 December 9999 the clock reading is valid, and none of the three
  functions returns a range: the day and the week end after the last representable
  date, and the month range asks for year 10000.
\<close>

theorem report_ranges_counterexample:
  "valid_datetime last_day_of_9999 \<and>
   today_range last_day_of_9999 = Inl OverflowError \<and>
   week_range_monday last_day_of_9999 = Inl OverflowError \<and>
   month_range last_day_of_9999 = Inl ValueError"
  by (simp only: today_month_at_9999 week_at_9999 simp_thms)

end
